theory Spec2Isabelle
  imports Complex_Main "HOL-Library.Sublist" "HOL-Library.AList"
begin

section \<open>JavaScript values used by the upload and import actions\<close>

text \<open>
  A JavaScript number is a double: a finite one is the real it denotes, the others are
  the two infinities and NaN. Only the operations the actions apply to numbers are
  defined.
\<close>

datatype jsnum = NaN | NegInfinity | Finite real | Infinity

fun isNaN :: "jsnum \<Rightarrow> bool" where
  "isNaN NaN = True"
| "isNaN _ = False"

text \<open>
  \<^verbatim>\<open>x * c\<close> for a positive finite constant \<open>c\<close>. The product of two finite doubles is
  the exact product rounded to a double; \<open>rnd\<close> is that rounding (to the nearest
  double, a tie to the even one, an infinity beyond the largest double), which the
  platform supplies. NaN and the infinities are their own products with \<open>c\<close>.
\<close>

fun js_times :: "(real \<Rightarrow> jsnum) \<Rightarrow> jsnum \<Rightarrow> real \<Rightarrow> jsnum" where
  "js_times rnd (Finite x) c = rnd (x * c)"
| "js_times rnd x c = x"

text \<open>\<^verbatim>\<open>Math.round\<close>: the nearest integer, a tie going up. The result is a double
  whenever the argument is one, so nothing is rounded twice.\<close>

fun Math_round :: "jsnum \<Rightarrow> jsnum" where
  "Math_round (Finite x) = Finite (of_int \<lfloor>x + 1 / 2\<rfloor>)"
| "Math_round x = x"

text \<open>\<^verbatim>\<open>x > 0\<close>.\<close>

fun js_positive :: "jsnum \<Rightarrow> bool" where
  "js_positive (Finite x) = (0 < x)"
| "js_positive Infinity = True"
| "js_positive _ = False"

text \<open>\<^verbatim>\<open>String.prototype.includes\<close>, \<^verbatim>\<open>split\<close> on one character, \<^verbatim>\<open>replace\<close> of
  the first occurrence of a string pattern, and \<^verbatim>\<open>Array.prototype.join\<close>.\<close>

fun str_includes :: "string \<Rightarrow> string \<Rightarrow> bool" where
  "str_includes [] t = (t = [])"
| "str_includes (c # cs) t = (prefix t (c # cs) \<or> str_includes cs t)"

fun str_split :: "char \<Rightarrow> string \<Rightarrow> string list" where
  "str_split sep [] = [[]]"
| "str_split sep (c # cs) =
     (if c = sep then [] # str_split sep cs
      else (case str_split sep cs of [] \<Rightarrow> [[c]] | w # ws \<Rightarrow> (c # w) # ws))"

fun str_replace :: "string \<Rightarrow> string \<Rightarrow> string \<Rightarrow> string" where
  "str_replace [] pat rep = (if pat = [] then rep else [])"
| "str_replace (c # cs) pat rep =
     (if prefix pat (c # cs) then rep @ drop (length pat) (c # cs)
      else c # str_replace cs pat rep)"

fun str_join :: "string \<Rightarrow> string list \<Rightarrow> string" where
  "str_join sep [] = []"
| "str_join sep [x] = x"
| "str_join sep (x # y # ys) = x @ sep @ str_join sep (y # ys)"

text \<open>Decimal rendering of a number inside a template literal or by \<^verbatim>\<open>String(n)\<close>.\<close>

definition digit :: "nat \<Rightarrow> char" where
  "digit d = ''0123456789'' ! d"

fun show_nat :: "nat \<Rightarrow> string" where
  "show_nat n = (if n < 10 then [digit n] else show_nat (n div 10) @ [digit (n mod 10)])"

declare show_nat.simps [simp del]

definition show_int :: "int \<Rightarrow> string" where
  "show_int i = (if i < 0 then CHR ''-'' # show_nat (nat (- i)) else show_nat (nat i))"

section \<open>Responses, errors and the host\<close>

text \<open>
  The body of a Graph response as \<^verbatim>\<open>res.json()\<close> gives it: the \<^verbatim>\<open>id\<close> of the item
  and, for a children listing, the ids of the items under \<^verbatim>\<open>value\<close> (\<open>None\<close> when the
  body has no \<^verbatim>\<open>value\<close>).
\<close>

record graph_json =
  id_of :: string
  value_of :: "string list option"

text \<open>
  A fetch \<^verbatim>\<open>Response\<close>: \<open>retryAfter\<close> is \<^verbatim>\<open>headers.get('Retry-After')\<close> (\<open>None\<close> for
  null), \<open>body_text\<close> is \<^verbatim>\<open>await res.text()\<close>, \<open>body_json\<close> is \<^verbatim>\<open>await res.json()\<close>
  (\<open>None\<close> when the body does not parse and the call throws).
\<close>

record response =
  status :: nat
  statusText :: string
  retryAfter :: "string option"
  body_text :: string
  body_json :: "graph_json option"

definition ok :: "response \<Rightarrow> bool" where
  "ok res = (200 \<le> status res \<and> status res \<le> 299)"

text \<open>A thrown error: its \<^verbatim>\<open>name\<close>, its \<^verbatim>\<open>message\<close> and, for \<^verbatim>\<open>GraphApiError\<close> and
  \<^verbatim>\<open>HttpError\<close>, the response it preserves.\<close>

record js_error =
  name :: string
  message :: string
  response :: "response option"

definition Error :: "string \<Rightarrow> js_error" where
  "Error msg = \<lparr>name = ''Error'', message = msg, response = None\<rparr>"

definition GraphApiError :: "string \<Rightarrow> response \<Rightarrow> js_error" where
  "GraphApiError msg res = \<lparr>name = ''GraphApiError'', message = msg, response = Some res\<rparr>"

definition HttpError :: "string \<Rightarrow> response \<Rightarrow> js_error" where
  "HttpError msg res = \<lparr>name = ''HttpError'', message = msg, response = Some res\<rparr>"

definition SyntaxError :: js_error where
  "SyntaxError = \<lparr>name = ''SyntaxError'', message = ''Unexpected end of JSON input'',
     response = None\<rparr>"

text \<open>A request as \<^verbatim>\<open>fetch(url, init)\<close> receives it. The body is the JSON text of a
  folder to create (\<^verbatim>\<open>{name, folder: {}, '@microsoft.graph.conflictBehavior': 'fail'}\<close>)
  or a read stream opened on a local path.\<close>

datatype body = FolderJson string | FileStream string

record init =
  http_method :: string
  req_headers :: "(string \<times> string) list"
  req_body :: "body option"

type_synonym request = "string \<times> init"

text \<open>
  What the actions take from their platform: \<^verbatim>\<open>fetch\<close> against a remote service in
  state \<open>'w\<close> (it returns a response or throws), the number and date parsers, the
  rounding \<open>to_double\<close> of a real to a double that ends an arithmetic operation, the
  clock (read when the failure of attempt \<open>i\<close> is classified), \<^verbatim>\<open>path.join\<close>,
  \<^verbatim>\<open>mime.lookup\<close> (\<open>None\<close> for \<^verbatim>\<open>false\<close>), and the retry configuration the module
  reads from the environment when it is loaded.
\<close>

record 'w host =
  fetch :: "request \<Rightarrow> 'w \<Rightarrow> (js_error + response) \<times> 'w"
  parseFloat :: "string \<Rightarrow> jsnum"
  parseInt :: "string \<Rightarrow> jsnum"
  to_double :: "real \<Rightarrow> jsnum"
  Date_parse :: "string \<Rightarrow> real option"
  Date_now :: "nat \<Rightarrow> real"
  path_join :: "string \<Rightarrow> string \<Rightarrow> string"
  mime_lookup :: "string \<Rightarrow> string option"
  UPLOAD_MAX_RETRIES :: int
  UPLOAD_BASE_DELAY :: real
  DOWNLOAD_MAX_RETRIES :: int
  DOWNLOAD_BASE_DELAY :: real

section \<open>The retry executor\<close>

text \<open>\<^verbatim>\<open>getRetryAfterDelay\<close> (the same function in both actions); \<open>now\<close> is
  \<^verbatim>\<open>Date.now()\<close>.\<close>

definition getRetryAfterDelay :: "'w host \<Rightarrow> real \<Rightarrow> response \<Rightarrow> jsnum option" where
  "getRetryAfterDelay h now res =
     (case retryAfter res of
        None \<Rightarrow> None
      | Some ra \<Rightarrow>
          if ra = [] then None
          else
            let millisToSleep = Math_round (js_times (to_double h) (parseFloat h ra) 1000) in
            if isNaN millisToSleep then
              (case Date_parse h ra of
                 None \<Rightarrow> None
               | Some parsedDate \<Rightarrow>
                   let millis = max 0 (parsedDate - now) in
                   if 0 < millis then Some (Finite millis) else None)
            else if js_positive millisToSleep then Some millisToSleep else None)"

text \<open>
  The classification in the \<^verbatim>\<open>catch\<close> block: whether the error is retryable, and the
  Retry-After delay when the error carries a response with a retryable status.
\<close>

definition upload_retryableStatuses :: "nat list" where
  "upload_retryableStatuses = [429, 500, 502, 503, 504]"

definition download_retryableStatuses :: "nat list" where
  "download_retryableStatuses = [429, 502, 503, 504, 520, 521, 522, 523, 524]"

definition upload_classify :: "'w host \<Rightarrow> nat \<Rightarrow> js_error \<Rightarrow> bool \<times> jsnum option" where
  "upload_classify h attempt error =
     (case (if name error = ''GraphApiError'' then response error else None) of
        Some res \<Rightarrow>
          (let isRetryable = status res \<in> set upload_retryableStatuses in
           (isRetryable,
            if isRetryable then getRetryAfterDelay h (Date_now h attempt) res else None))
      | None \<Rightarrow>
          if message error \<noteq> [] \<and> str_includes (message error) ''fetch failed'' then
            (True, None)
          else
            (message error \<noteq> [] \<and>
               list_ex (\<lambda>st. str_includes (message error) (''Graph API error '' @ show_nat st))
                 upload_retryableStatuses, None))"

definition download_classify :: "'w host \<Rightarrow> nat \<Rightarrow> js_error \<Rightarrow> bool \<times> jsnum option" where
  "download_classify h attempt error =
     (if name error = ''TypeError'' then (True, None)
      else
        (case (if name error = ''HttpError'' then response error else None) of
           Some res \<Rightarrow>
             (let isRetryable = status res \<in> set download_retryableStatuses in
              (isRetryable,
               if isRetryable then getRetryAfterDelay h (Date_now h attempt) res else None))
         | None \<Rightarrow>
             (message error \<noteq> [] \<and>
                list_ex (\<lambda>st. str_includes (message error) (show_nat st))
                  download_retryableStatuses, None)))"

text \<open>The wait before the next attempt: the Retry-After delay, else
  \<^verbatim>\<open>baseDelay * (2 ** attempt)\<close>, a product with a power of two, which is a double
  as it stands.\<close>

definition waitTime :: "real \<Rightarrow> nat \<Rightarrow> jsnum option \<Rightarrow> jsnum" where
  "waitTime baseDelay attempt retryAfterDelay =
     (case retryAfterDelay of
        Some d \<Rightarrow> d
      | None \<Rightarrow> Finite (baseDelay * 2 ^ attempt))"

text \<open>
  What a run of the executor did: the value it returned or the error it threw, how many
  times it invoked the operation, the waits it slept between attempts, and the state
  the operation left behind.
\<close>

record ('a, 's) retried =
  outcome :: "js_error + 'a"
  invocations :: nat
  waits :: "jsnum list"
  final :: 's

text \<open>
  The \<^verbatim>\<open>for (let attempt = 0; attempt <= maxRetries; attempt += 1)\<close> loop of
  \<^verbatim>\<open>retryUploadOperation\<close> and of \<^verbatim>\<open>retryDownloadOperation\<close>, from \<open>attempt\<close> on. The two
  functions differ in the classification, the base delay and the text of the error
  thrown when the loop never ran, which are the parameters \<open>classify\<close>, \<open>baseDelay\<close>
  and \<open>exhausted\<close>. The operation takes no argument and acts on a state \<open>'s\<close>.
\<close>

function retry_loop ::
  "(nat \<Rightarrow> js_error \<Rightarrow> bool \<times> jsnum option) \<Rightarrow> real \<Rightarrow> js_error \<Rightarrow>
   ('s \<Rightarrow> (js_error + 'a) \<times> 's) \<Rightarrow> int \<Rightarrow> nat \<Rightarrow> js_error option \<Rightarrow> 's \<Rightarrow> ('a, 's) retried"
where
  "retry_loop classify baseDelay exhausted operation maxRetries attempt lastError s =
     (if int attempt \<le> maxRetries then
        (case operation s of
           (Inr result, s') \<Rightarrow>
             \<lparr>outcome = Inr result, invocations = 1, waits = [], final = s'\<rparr>
         | (Inl error, s') \<Rightarrow>
             (case classify attempt error of
                (isRetryable, retryAfterDelay) \<Rightarrow>
                  if int attempt < maxRetries \<and> isRetryable then
                    (let r = retry_loop classify baseDelay exhausted operation maxRetries
                               (Suc attempt) (Some error) s'
                     in r\<lparr>invocations := Suc (invocations r),
                          waits := waitTime baseDelay attempt retryAfterDelay # waits r\<rparr>)
                  else \<lparr>outcome = Inl error, invocations = 1, waits = [], final = s'\<rparr>))
      else
        \<lparr>outcome = Inl (case lastError of Some e \<Rightarrow> e | None \<Rightarrow> exhausted),
         invocations = 0, waits = [], final = s\<rparr>)"
  by pat_completeness auto
termination
  by (relation "measure (\<lambda>(c, b, x, operation, maxRetries, attempt, l, s).
        nat (maxRetries + 1 - int attempt))") auto

declare retry_loop.simps [simp del]

definition retryUploadOperation ::
  "'w host \<Rightarrow> ('s \<Rightarrow> (js_error + 'a) \<times> 's) \<Rightarrow> string \<Rightarrow> int \<Rightarrow> 's \<Rightarrow> ('a, 's) retried" where
  "retryUploadOperation h operation context maxRetries s =
     retry_loop (upload_classify h) (UPLOAD_BASE_DELAY h)
       (Error (''Upload operation failed after '' @ show_int (maxRetries + 1)
               @ '' attempts for '' @ context))
       operation maxRetries 0 None s"

definition retryDownloadOperation ::
  "'w host \<Rightarrow> ('s \<Rightarrow> (js_error + 'a) \<times> 's) \<Rightarrow> string \<Rightarrow> int \<Rightarrow> 's \<Rightarrow> ('a, 's) retried" where
  "retryDownloadOperation h operation context maxRetries s =
     retry_loop (download_classify h) (DOWNLOAD_BASE_DELAY h)
       (Error (''Download operation failed after '' @ show_int (maxRetries + 1)
               @ '' attempts for '' @ context))
       operation maxRetries 0 None s"

text \<open>
  The state after \<open>i\<close> invocations of an operation, and the error its invocation
  number \<open>i\<close> (from 0) throws, if it throws.
\<close>

fun state_after :: "('s \<Rightarrow> (js_error + 'a) \<times> 's) \<Rightarrow> 's \<Rightarrow> nat \<Rightarrow> 's" where
  "state_after operation s 0 = s"
| "state_after operation s (Suc i) = state_after operation (snd (operation s)) i"

definition thrown :: "('s \<Rightarrow> (js_error + 'a) \<times> 's) \<Rightarrow> 's \<Rightarrow> nat \<Rightarrow> js_error option" where
  "thrown operation s i =
     (case fst (operation (state_after operation s i)) of Inl e \<Rightarrow> Some e | Inr _ \<Rightarrow> None)"

section \<open>The state of a run\<close>

text \<open>The module's two globals, \<^verbatim>\<open>uploadReport\<close> and \<^verbatim>\<open>sourceStructure\<close>.\<close>

record report =
  uploads :: nat
  uploadList :: "string list"
  failures :: nat
  failedList :: "string list"
  failedFolderCreations :: nat
  lockedFiles :: nat

record entry =
  entry_name :: string
  path :: string

record upload_file = entry +
  relative :: string

record source_structure =
  folders :: "entry list"
  files :: "entry list"

text \<open>
  The trace is auxiliary: it records each call of \<^verbatim>\<open>fetch\<close>, each inter-request
  \<^verbatim>\<open>sleep(delay)\<close>, and, just before a folder-creation request, the path being created
  with the \<^verbatim>\<open>parentId\<close> and the \<^verbatim>\<open>folderMap\<close> as they are at that moment. The
  backoff waits inside the retry executor are reported by the executor itself. The
  \<^verbatim>\<open>folderMap\<close> is a JavaScript \<^verbatim>\<open>Map\<close>: an association list in insertion order.
  Messages written with \<^verbatim>\<open>core.info\<close>, \<^verbatim>\<open>core.warning\<close> and \<^verbatim>\<open>core.debug\<close> are left out:
  they change nothing the functions read.
\<close>

datatype event =
    Creating string string "(string \<times> string) list"
  | Fetch request
  | Sleep jsnum

record 'w state =
  remote :: 'w
  uploadReport :: report
  sourceStructure :: source_structure
  outputs :: "(string \<times> string) list"
  trace :: "event list"

definition initial_state :: "'w \<Rightarrow> 'w state" where
  "initial_state w =
     \<lparr>remote = w,
      uploadReport = \<lparr>uploads = 0, uploadList = [], failures = 0, failedList = [],
                      failedFolderCreations = 0, lockedFiles = 0\<rparr>,
      sourceStructure = \<lparr>folders = [], files = []\<rparr>,
      outputs = [],
      trace = []\<rparr>"

definition sleep :: "jsnum \<Rightarrow> 'w state \<Rightarrow> 'w state" where
  "sleep ms s = s\<lparr>trace := trace s @ [Sleep ms]\<rparr>"

definition setOutput :: "string \<Rightarrow> string \<Rightarrow> 'w state \<Rightarrow> 'w state" where
  "setOutput key v s = s\<lparr>outputs := outputs s @ [(key, v)]\<rparr>"

definition js_fetch :: "'w host \<Rightarrow> string \<Rightarrow> init \<Rightarrow> 'w state \<Rightarrow> (js_error + response) \<times> 'w state" where
  "js_fetch h url i s =
     (case fetch h (url, i) (remote s) of
        (r, w) \<Rightarrow> (r, s\<lparr>remote := w, trace := trace s @ [Fetch (url, i)]\<rparr>))"

section \<open>Graph requests\<close>

definition GRAPH_API :: string where
  "GRAPH_API = ''https://graph.microsoft.com/v1.0''"

definition default_init :: "string \<Rightarrow> init" where
  "default_init token =
     \<lparr>http_method = ''GET'',
      req_headers = [(''Authorization'', ''Bearer '' @ token), (''Accept'', ''application/json'')],
      req_body = None\<rparr>"

definition count_locked :: "'w state \<Rightarrow> 'w state" where
  "count_locked s = s\<lparr>uploadReport := (uploadReport s)\<lparr>lockedFiles := lockedFiles (uploadReport s) + 1\<rparr>\<rparr>"

definition graphFetch ::
  "'w host \<Rightarrow> string \<Rightarrow> string \<Rightarrow> init option \<Rightarrow> 'w state \<Rightarrow> (js_error + graph_json) \<times> 'w state" where
  "graphFetch h token endpoint initOptions s =
     (let i = (case initOptions of Some i \<Rightarrow> i | None \<Rightarrow> default_init token) in
      case js_fetch h (GRAPH_API @ endpoint) i s of
        (Inl e, s1) \<Rightarrow> (Inl e, s1)
      | (Inr res, s1) \<Rightarrow>
          if \<not> ok res then
            (Inl (GraphApiError
                    (''Graph API error '' @ show_nat (status res) @ '': '' @ body_text res) res),
             if status res = 423 then count_locked s1 else s1)
          else
            (case body_json res of
               None \<Rightarrow> (Inl SyntaxError, s1)
             | Some j \<Rightarrow> (Inr j, s1)))"

definition graphFetchWithRetry ::
  "'w host \<Rightarrow> string \<Rightarrow> string \<Rightarrow> init option \<Rightarrow> 'w state \<Rightarrow> (graph_json, 'w state) retried" where
  "graphFetchWithRetry h token endpoint initOptions s =
     retryUploadOperation h (graphFetch h token endpoint initOptions) endpoint
       (UPLOAD_MAX_RETRIES h) s"

text \<open>The request of one upload attempt, and the operation \<^verbatim>\<open>uploadFileWithRetry\<close> hands
  to the executor: it opens a fresh stream, looks the MIME type up and awaits the PUT.\<close>

definition upload_endpoint :: "string \<Rightarrow> string \<Rightarrow> upload_file \<Rightarrow> string" where
  "upload_endpoint driveId folderId file =
     ''/drives/'' @ driveId @ ''/items/'' @ folderId @ '':'' @ relative file @ '':/content''"

definition upload_init :: "'w host \<Rightarrow> string \<Rightarrow> upload_file \<Rightarrow> init" where
  "upload_init h accessToken file =
     (let fileStream = FileStream (path file);
          mimeType = (case mime_lookup h (path file) of
                        Some m \<Rightarrow> if m \<noteq> [] then m else ''application/octet-stream''
                      | None \<Rightarrow> ''application/octet-stream'')
      in \<lparr>http_method = ''PUT'',
          req_headers = [(''Authorization'', ''Bearer '' @ accessToken),
                         (''Accept'', ''application/json''), (''Content-Type'', mimeType)],
          req_body = Some fileStream\<rparr>)"

definition upload_operation ::
  "'w host \<Rightarrow> string \<Rightarrow> string \<Rightarrow> string \<Rightarrow> upload_file \<Rightarrow> 'w state \<Rightarrow> (js_error + unit) \<times> 'w state" where
  "upload_operation h accessToken driveId folderId file s =
     (case graphFetch h accessToken (upload_endpoint driveId folderId file)
             (Some (upload_init h accessToken file)) s of
        (Inl e, s1) \<Rightarrow> (Inl e, s1)
      | (Inr j, s1) \<Rightarrow> (Inr (), s1))"

definition uploadFileWithRetry ::
  "'w host \<Rightarrow> string \<Rightarrow> string \<Rightarrow> string \<Rightarrow> upload_file \<Rightarrow> 'w state \<Rightarrow> bool \<times> 'w state" where
  "uploadFileWithRetry h accessToken driveId folderId file s =
     (let r = retryUploadOperation h (upload_operation h accessToken driveId folderId file)
                (path file) (UPLOAD_MAX_RETRIES h) s
      in case outcome r of
           Inr u \<Rightarrow> (True, final r)
         | Inl error \<Rightarrow> (False, final r))"

section \<open>The folder hierarchy builder\<close>

definition apostrophe :: string where
  "apostrophe = [CHR 0x27]"

definition create_init :: "string \<Rightarrow> string \<Rightarrow> init" where
  "create_init accessToken segment =
     \<lparr>http_method = ''POST'',
      req_headers = [(''Authorization'', ''Bearer '' @ accessToken),
                     (''Content-Type'', ''application/json'')],
      req_body = Some (FolderJson segment)\<rparr>"

definition children_url :: "string \<Rightarrow> string \<Rightarrow> string" where
  "children_url driveId parentId =
     GRAPH_API @ ''/drives/'' @ driveId @ ''/items/'' @ parentId @ ''/children''"

definition existing_endpoint :: "string \<Rightarrow> string \<Rightarrow> string \<Rightarrow> string" where
  "existing_endpoint driveId parentId segment =
     ''/drives/'' @ driveId @ ''/items/'' @ parentId @ ''/children?$filter=name eq ''
       @ apostrophe @ segment @ apostrophe"

definition count_failed_folder :: "'w state \<Rightarrow> 'w state" where
  "count_failed_folder s =
     s\<lparr>uploadReport := (uploadReport s)\<lparr>failedFolderCreations :=
          failedFolderCreations (uploadReport s) + 1\<rparr>\<rparr>"

text \<open>
  The variables of the walk over one folder's segments: \<^verbatim>\<open>currentPath\<close> (\<open>None\<close> while
  undefined), \<^verbatim>\<open>parentId\<close> and the \<^verbatim>\<open>folderMap\<close>.
\<close>

type_synonym walk = "string option \<times> string \<times> (string \<times> string) list"

text \<open>\<^verbatim>\<open>currentPath ? `${currentPath}/${segment}` : segment\<close>: the empty string is falsy.\<close>

definition next_path :: "string option \<Rightarrow> string \<Rightarrow> string" where
  "next_path currentPath segment =
     (case currentPath of
        None \<Rightarrow> segment
      | Some p \<Rightarrow> if p \<noteq> [] then p @ ''/'' @ segment else segment)"

text \<open>The body of \<^verbatim>\<open>for (const segment of segments)\<close>.\<close>

definition create_segment ::
  "'w host \<Rightarrow> string \<Rightarrow> string \<Rightarrow> jsnum \<Rightarrow> string \<Rightarrow> walk \<Rightarrow> 'w state \<Rightarrow> (js_error + walk) \<times> 'w state" where
  "create_segment h accessToken driveId delay segment v s =
     (case v of (currentPath0, parentId, folderMap) \<Rightarrow>
        let currentPath = next_path currentPath0 segment in
        case map_of folderMap currentPath of
          Some cached \<Rightarrow> (Inr (Some currentPath, cached, folderMap), s)
        | None \<Rightarrow>
            (case js_fetch h (children_url driveId parentId) (create_init accessToken segment)
                    (s\<lparr>trace := trace s @ [Creating currentPath parentId folderMap]\<rparr>) of
               (Inl e, s1) \<Rightarrow> (Inl e, s1)
             | (Inr res, s1) \<Rightarrow>
                 if ok res then
                   (case body_json res of
                      None \<Rightarrow> (Inl SyntaxError, s1)
                    | Some data \<Rightarrow>
                        (Inr (Some currentPath, id_of data,
                              AList.update currentPath (id_of data) folderMap), s1))
                 else if status res = 409 then
                   (let r = graphFetchWithRetry h accessToken
                              (existing_endpoint driveId parentId segment) None s1
                    in case outcome r of
                         Inl e \<Rightarrow> (Inl e, final r)
                       | Inr existing \<Rightarrow>
                           (case value_of existing of
                              None \<Rightarrow>
                                (Inl (Error (''Failed to get data for existing folder ''
                                        @ currentPath @ ''. Upload is aborted.'')), final r)
                            | Some [] \<Rightarrow>
                                (Inl (Error (''Failed to get data for existing folder ''
                                        @ currentPath @ ''. Upload is aborted.'')), final r)
                            | Some [ident] \<Rightarrow>
                                (Inr (Some currentPath, ident,
                                      AList.update currentPath ident folderMap),
                                 sleep delay (final r))
                            | Some (ident # second # others) \<Rightarrow>
                                (Inl (Error (''Found multiple existing folders for ''
                                        @ currentPath @ ''. Upload is aborted.'')), final r)))
                 else
                   (Inl (Error (''Failed to create folder '' @ currentPath
                           @ ''. Upload is aborted.'')),
                    count_failed_folder s1)))"

fun walk_segments ::
  "'w host \<Rightarrow> string \<Rightarrow> string \<Rightarrow> jsnum \<Rightarrow> string list \<Rightarrow> walk \<Rightarrow> 'w state \<Rightarrow> (js_error + walk) \<times> 'w state" where
  "walk_segments h accessToken driveId delay [] v s = (Inr v, s)"
| "walk_segments h accessToken driveId delay (segment # segments) v s =
     (case create_segment h accessToken driveId delay segment v s of
        (Inl e, s1) \<Rightarrow> (Inl e, s1)
      | (Inr v1, s1) \<Rightarrow> walk_segments h accessToken driveId delay segments v1 s1)"

text \<open>\<^verbatim>\<open>for (const folder of sourceFolders)\<close>: each folder starts from an undefined
  \<^verbatim>\<open>currentPath\<close> and the root \<^verbatim>\<open>folderId\<close>, and keeps the \<^verbatim>\<open>folderMap\<close>.\<close>

fun create_folders ::
  "'w host \<Rightarrow> string \<Rightarrow> string \<Rightarrow> string \<Rightarrow> jsnum \<Rightarrow> entry list \<Rightarrow> (string \<times> string) list \<Rightarrow>
   'w state \<Rightarrow> (js_error + (string \<times> string) list) \<times> 'w state" where
  "create_folders h accessToken driveId folderId delay [] folderMap s = (Inr folderMap, s)"
| "create_folders h accessToken driveId folderId delay (folder # sourceFolders) folderMap s =
     (case walk_segments h accessToken driveId delay (str_split CHR ''/'' (path folder))
             (None, folderId, folderMap) s of
        (Inl e, s1) \<Rightarrow> (Inl e, s1)
      | (Inr (currentPath, parentId, folderMap1), s1) \<Rightarrow>
          create_folders h accessToken driveId folderId delay sourceFolders folderMap1 s1)"

text \<open>The function returns nothing: the \<^verbatim>\<open>folderMap\<close> is local to it.\<close>

definition createFoldersIfNecessary ::
  "'w host \<Rightarrow> string \<Rightarrow> string \<Rightarrow> string \<Rightarrow> entry list \<Rightarrow> jsnum \<Rightarrow> 'w state \<Rightarrow> (js_error + unit) \<times> 'w state" where
  "createFoldersIfNecessary h accessToken driveId folderId sourceFolders delay s =
     (case create_folders h accessToken driveId folderId delay sourceFolders
             [([], folderId)] s of
        (Inl e, s1) \<Rightarrow> (Inl e, s1)
      | (Inr folderMap, s1) \<Rightarrow> (Inr (), s1))"

section \<open>The directory scanner\<close>

text \<open>
  A node of the local tree as \<^verbatim>\<open>readdirSync(dir, {withFileTypes: true})\<close> shows it: a
  regular file, a directory with its entries in listing order, a directory that cannot
  be read, or anything else (a symbolic link, a socket, a device).
\<close>

datatype fsnode = File | Directory "(string \<times> fsnode) list" | Unreadable | Other

fun isDirectory :: "fsnode \<Rightarrow> bool" where
  "isDirectory (Directory entries) = True"
| "isDirectory Unreadable = True"
| "isDirectory _ = False"

fun isFile :: "fsnode \<Rightarrow> bool" where
  "isFile File = True"
| "isFile _ = False"

definition scandir_error :: "string \<Rightarrow> js_error" where
  "scandir_error srcFolder = Error (''EACCES: permission denied, scandir '' @ srcFolder)"

definition notdir_error :: "string \<Rightarrow> js_error" where
  "notdir_error srcFolder = Error (''ENOTDIR: not a directory, scandir '' @ srcFolder)"

definition no_content_error :: "string \<Rightarrow> js_error" where
  "no_content_error srcFolder =
     Error (''No upload items found in '' @ srcFolder
            @ ''. Ensure the zip file contains valid content.'')"

definition push_folder :: "entry \<Rightarrow> 'w state \<Rightarrow> 'w state" where
  "push_folder e s =
     s\<lparr>sourceStructure := (sourceStructure s)\<lparr>folders := folders (sourceStructure s) @ [e]\<rparr>\<rparr>"

definition push_file :: "entry \<Rightarrow> 'w state \<Rightarrow> 'w state" where
  "push_file e s =
     s\<lparr>sourceStructure := (sourceStructure s)\<lparr>files := files (sourceStructure s) @ [e]\<rparr>\<rparr>"

text \<open>\<^verbatim>\<open>populateSourceStructure(srcFolder, isTopLevel)\<close> on the node found at
  \<^verbatim>\<open>srcFolder\<close>, and its loop over the entries.\<close>

fun populateSourceStructure ::
  "'w host \<Rightarrow> string \<Rightarrow> fsnode \<Rightarrow> bool \<Rightarrow> 'w state \<Rightarrow> (js_error + unit) \<times> 'w state"
and populate_entries ::
  "'w host \<Rightarrow> string \<Rightarrow> (string \<times> fsnode) list \<Rightarrow> 'w state \<Rightarrow> (js_error + unit) \<times> 'w state"
where
  "populateSourceStructure h srcFolder (Directory entries) isTopLevel s =
     (if isTopLevel \<and> entries = [] then (Inl (no_content_error srcFolder), s)
      else populate_entries h srcFolder entries s)"
| "populateSourceStructure h srcFolder Unreadable isTopLevel s =
     (Inl (scandir_error srcFolder), s)"
| "populateSourceStructure h srcFolder File isTopLevel s = (Inl (notdir_error srcFolder), s)"
| "populateSourceStructure h srcFolder Other isTopLevel s = (Inl (notdir_error srcFolder), s)"
| "populate_entries h srcFolder [] s = (Inr (), s)"
| "populate_entries h srcFolder ((nm, node) # entries) s =
     (let fullPath = path_join h srcFolder nm in
      if isDirectory node then
        (case populateSourceStructure h fullPath node False
                (push_folder \<lparr>entry_name = nm, path = fullPath\<rparr> s) of
           (Inl e, s1) \<Rightarrow> (Inl e, s1)
         | (Inr u, s1) \<Rightarrow> populate_entries h srcFolder entries s1)
      else if isFile node then
        populate_entries h srcFolder entries (push_file \<lparr>entry_name = nm, path = fullPath\<rparr> s)
      else populate_entries h srcFolder entries s)"

text \<open>A tree all of whose directories can be read.\<close>

fun readable :: "fsnode \<Rightarrow> bool"
and readable_entries :: "(string \<times> fsnode) list \<Rightarrow> bool"
where
  "readable (Directory entries) = readable_entries entries"
| "readable Unreadable = False"
| "readable File = True"
| "readable Other = True"
| "readable_entries [] = True"
| "readable_entries ((nm, node) # entries) = (readable node \<and> readable_entries entries)"

section \<open>The upload loop and the run\<close>

definition record_upload :: "upload_file \<Rightarrow> 'w state \<Rightarrow> 'w state" where
  "record_upload item s =
     s\<lparr>uploadReport := (uploadReport s)\<lparr>uploads := uploads (uploadReport s) + 1,
          uploadList := uploadList (uploadReport s) @ [relative item]\<rparr>\<rparr>"

definition record_failure :: "upload_file \<Rightarrow> 'w state \<Rightarrow> 'w state" where
  "record_failure item s =
     s\<lparr>uploadReport := (uploadReport s)\<lparr>failures := failures (uploadReport s) + 1,
          failedList := failedList (uploadReport s) @ [path item]\<rparr>\<rparr>"

fun uploadFiles ::
  "'w host \<Rightarrow> string \<Rightarrow> string \<Rightarrow> string \<Rightarrow> upload_file list \<Rightarrow> jsnum \<Rightarrow> 'w state \<Rightarrow> 'w state" where
  "uploadFiles h accessToken driveId folderId [] delay s = s"
| "uploadFiles h accessToken driveId folderId (item # sourceFiles) delay s =
     (case uploadFileWithRetry h accessToken driveId folderId item s of
        (success, s1) \<Rightarrow>
          uploadFiles h accessToken driveId folderId sourceFiles delay
            (sleep delay (if success then record_upload item s1 else record_failure item s1)))"

record inputs =
  access_token :: string
  drive_id :: string
  folder_id :: string
  zip_contents_path :: string
  delay_input :: string

definition cross_mark :: string where
  "cross_mark = [CHR 0xE2, CHR 0x9D, CHR 0x8C]"

text \<open>The \<^verbatim>\<open>try\<close> block of \<^verbatim>\<open>run\<close>; \<open>docs\<close> is the node at \<^verbatim>\<open>docsDir\<close>, \<open>None\<close> when
  \<^verbatim>\<open>fs.existsSync(docsDir)\<close> is false.\<close>

definition run_body :: "'w host \<Rightarrow> inputs \<Rightarrow> fsnode option \<Rightarrow> 'w state \<Rightarrow> (js_error + unit) \<times> 'w state" where
  "run_body h inp docs s =
     (let accessToken = access_token inp;
          driveId = drive_id inp;
          folderId = folder_id inp;
          delay = parseInt h (delay_input inp);
          docsDir = zip_contents_path inp @ ''/docx''
      in case docs of
           None \<Rightarrow>
             (Inl (Error (''Directory '' @ docsDir @ '' was not found and no files were ''
                     @ ''uploaded. Check zip contents and ensure it contains valid content.'')), s)
         | Some node \<Rightarrow>
             (case populateSourceStructure h docsDir node True s of
                (Inl e, s1) \<Rightarrow> (Inl e, s1)
              | (Inr u, s1) \<Rightarrow>
                  (case createFoldersIfNecessary h accessToken driveId folderId
                          (map (\<lambda>folder. \<lparr>entry_name = entry_name folder,
                                          path = str_replace (path folder) docsDir []\<rparr>)
                             (folders (sourceStructure s1)))
                          delay s1 of
                     (Inl e, s2) \<Rightarrow> (Inl e, s2)
                   | (Inr u, s2) \<Rightarrow>
                       (let s3 = uploadFiles h accessToken driveId folderId
                                   (map (\<lambda>nextFile. \<lparr>entry_name = entry_name nextFile,
                                           path = path nextFile,
                                           relative = str_replace (path nextFile) docsDir []\<rparr>)
                                      (files (sourceStructure s2)))
                                   delay s2
                        in (Inr (),
                            if 0 < failures (uploadReport s3) \<or> failedList (uploadReport s3) \<noteq> []
                            then setOutput ''error_message''
                                   (cross_mark @ '' Upload Error: Some uploads failed. ''
                                    @ ''Check the workflow for more details.'') s3
                            else s3)))))"

text \<open>The \<^verbatim>\<open>finally\<close> block.\<close>

definition emit_report :: "'w state \<Rightarrow> 'w state" where
  "emit_report s =
     (setOutput ''upload_failed_locked'' (show_nat (lockedFiles (uploadReport s)))
      (setOutput ''upload_failed_list'' (str_join '', '' (failedList (uploadReport s)))
      (setOutput ''upload_failures'' (show_nat (failures (uploadReport s)))
      (setOutput ''upload_list'' (str_join '', '' (uploadList (uploadReport s)))
      (setOutput ''upload_successes'' (show_nat (uploads (uploadReport s))) s)))))"

definition run :: "'w host \<Rightarrow> inputs \<Rightarrow> fsnode option \<Rightarrow> 'w state \<Rightarrow> 'w state" where
  "run h inp docs s =
     (case run_body h inp docs s of
        (Inl error, s1) \<Rightarrow>
          emit_report (setOutput ''error_message''
                         (cross_mark @ '' Upload Error: '' @ message error) s1)
      | (Inr u, s1) \<Rightarrow> emit_report s1)"

section \<open>A host and operations for concrete runs\<close>

text \<open>
  The remote of the examples answers successive calls of \<^verbatim>\<open>fetch\<close> from a script,
  whatever the request; when the script is used up \<^verbatim>\<open>fetch\<close> throws the network error.
  The number parser of the examples reads a string of decimal digits and gives NaN on
  anything else; their products are products of small integers, doubles as they stand,
  so that \<open>to_double\<close> has nothing to round; their clock stands still and no MIME type
  is known.
\<close>

definition fetch_failed :: js_error where
  "fetch_failed = \<lparr>name = ''TypeError'', message = ''fetch failed'', response = None\<rparr>"

definition scripted :: "request \<Rightarrow> (js_error + response) list \<Rightarrow> (js_error + response) \<times> (js_error + response) list" where
  "scripted req w = (case w of [] \<Rightarrow> (Inl fetch_failed, []) | r # rs \<Rightarrow> (r, rs))"

definition digit_value :: "char \<Rightarrow> nat option" where
  "digit_value c = map_of (zip ''0123456789'' [0..<10]) c"

fun digits_value :: "nat \<Rightarrow> string \<Rightarrow> nat option" where
  "digits_value acc [] = Some acc"
| "digits_value acc (c # cs) =
     (case digit_value c of None \<Rightarrow> None | Some d \<Rightarrow> digits_value (acc * 10 + d) cs)"

definition read_decimal :: "string \<Rightarrow> jsnum" where
  "read_decimal str =
     (if str = [] then NaN
      else case digits_value 0 str of None \<Rightarrow> NaN | Some n \<Rightarrow> Finite (of_nat n))"

definition example_host :: "(js_error + response) list host" where
  "example_host =
     \<lparr>fetch = scripted, parseFloat = read_decimal, parseInt = read_decimal,
      to_double = Finite, Date_parse = (\<lambda>str. None), Date_now = (\<lambda>i. 0),
      path_join = (\<lambda>dir nm. dir @ ''/'' @ nm), mime_lookup = (\<lambda>p. None),
      UPLOAD_MAX_RETRIES = 2, UPLOAD_BASE_DELAY = 1000,
      DOWNLOAD_MAX_RETRIES = 3, DOWNLOAD_BASE_DELAY = 2000\<rparr>"

definition reply :: "nat \<Rightarrow> string option \<Rightarrow> graph_json option \<Rightarrow> response" where
  "reply code ra j =
     \<lparr>status = code, statusText = [], retryAfter = ra, body_text = [], body_json = j\<rparr>"

definition item :: "string \<Rightarrow> graph_json" where
  "item ident = \<lparr>id_of = ident, value_of = None\<rparr>"

definition listing :: "string list \<Rightarrow> graph_json" where
  "listing idents = \<lparr>id_of = [], value_of = Some idents\<rparr>"

text \<open>An operation that throws \<open>e\<close> on its first \<open>K\<close> invocations and returns after
  that; its state counts the invocations.\<close>

definition flaky :: "js_error \<Rightarrow> nat \<Rightarrow> nat \<Rightarrow> (js_error + string) \<times> nat" where
  "flaky e K n = (if n < K then Inl e else Inr ''done'', Suc n)"

section \<open>Reading the trace\<close>

text \<open>The requests of a trace, and the folder creations it announces.\<close>

fun fetches :: "event list \<Rightarrow> request list" where
  "fetches [] = []"
| "fetches (Fetch req # evs) = req # fetches evs"
| "fetches (ev # evs) = fetches evs"

fun creations :: "event list \<Rightarrow> (string \<times> string \<times> (string \<times> string) list) list" where
  "creations [] = []"
| "creations (Creating p parentId folderMap # evs) = (p, parentId, folderMap) # creations evs"
| "creations (ev # evs) = creations evs"

text \<open>The parent of a folder path: the path without its last segment, the empty path
  for a path of one segment. The ancestors of a path are its proper prefixes.\<close>

definition parent_path :: "string \<Rightarrow> string" where
  "parent_path p = rev (drop 1 (dropWhile (\<lambda>c. c \<noteq> CHR ''/'') (rev p)))"

function ancestors :: "string \<Rightarrow> string list" where
  "ancestors p = (if p = [] then [] else parent_path p # ancestors (parent_path p))"
  by pat_completeness auto
termination
proof (relation "measure length")
  show "wf (measure length)" by simp
next
  fix p :: string
  assume "p \<noteq> []"
  have "length (dropWhile (\<lambda>c. c \<noteq> CHR ''/'') (rev p)) \<le> length p"
    using length_dropWhile_le [of "\<lambda>c. c \<noteq> CHR ''/''" "rev p"] by simp
  with \<open>p \<noteq> []\<close> have "length (parent_path p) < length p"
    by (cases p) (auto simp: parent_path_def)
  then show "(parent_path p, p) \<in> measure length" by simp
qed

declare ancestors.simps [simp del]

text \<open>The last segment of a folder path, the creation requests (the POSTs) of a trace,
  and the request that creates a folder announced in the trace.\<close>

definition last_segment :: "string \<Rightarrow> string" where
  "last_segment p = rev (takeWhile (\<lambda>c. c \<noteq> CHR ''/'') (rev p))"

definition posts :: "event list \<Rightarrow> request list" where
  "posts evs = filter (\<lambda>req. http_method (snd req) = ''POST'') (fetches evs)"

definition create_request ::
  "string \<Rightarrow> string \<Rightarrow> string \<times> string \<times> (string \<times> string) list \<Rightarrow> request" where
  "create_request accessToken driveId c =
     (case c of (p, parentId, folderMap) \<Rightarrow>
        (children_url driveId parentId, create_init accessToken (last_segment p)))"

text \<open>
  The invariant of the folder map: the empty path maps to the root id and the parent of
  every cached path is cached. In a walk, moreover, the parent id is the id cached for
  the current path. A creation is well placed when the path is not cached yet, its
  parent path is cached with the parent id of the request, and so is every ancestor.
\<close>

definition map_invar :: "string \<Rightarrow> (string \<times> string) list \<Rightarrow> bool" where
  "map_invar rootId folderMap =
     (map_of folderMap [] = Some rootId \<and>
      parent_path ` dom (map_of folderMap) \<subseteq> dom (map_of folderMap))"

definition walk_invar :: "string \<Rightarrow> walk \<Rightarrow> bool" where
  "walk_invar rootId v =
     (case v of (currentPath, parentId, folderMap) \<Rightarrow>
        map_invar rootId folderMap \<and>
        map_of folderMap (case currentPath of None \<Rightarrow> [] | Some c \<Rightarrow> c) = Some parentId)"

definition well_placed :: "string \<Rightarrow> string \<times> string \<times> (string \<times> string) list \<Rightarrow> bool" where
  "well_placed rootId c =
     (case c of (p, parentId, folderMap) \<Rightarrow>
        map_of folderMap [] = Some rootId \<and>
        map_of folderMap p = None \<and>
        map_of folderMap (parent_path p) = Some parentId \<and>
        set (ancestors p) \<subseteq> dom (map_of folderMap))"

text \<open>
  The events of a stretch of the builder's run that starts with the paths \<open>K\<close> cached:
  the creation requests are those announced, in order, each path is announced at most
  once and was not cached, and every creation is well placed.
\<close>

definition orderly ::
  "string \<Rightarrow> string \<Rightarrow> string \<Rightarrow> string set \<Rightarrow> event list \<Rightarrow> bool" where
  "orderly rootId accessToken driveId K evs =
     (posts evs = map (create_request accessToken driveId) (creations evs) \<and>
      distinct (map fst (creations evs)) \<and>
      fst ` set (creations evs) \<inter> K = {} \<and>
      list_all (well_placed rootId) (creations evs))"

section \<open>Frame conditions and example inputs\<close>

text \<open>
  Relations between the state before and after a piece of the run, used to state what
  it leaves alone. \<open>fetch_only R\<close>: nothing happened but calls of \<^verbatim>\<open>fetch\<close> with requests
  of \<open>R\<close>, which may have counted locked files. \<open>builder_only\<close>: the scanned structure,
  the outputs and the upload counts and lists are as they were.
\<close>

definition fetch_only :: "request set \<Rightarrow> 'w state \<Rightarrow> 'w state \<Rightarrow> bool" where
  "fetch_only R s s' =
     (sourceStructure s' = sourceStructure s \<and> outputs s' = outputs s \<and>
      uploads (uploadReport s') = uploads (uploadReport s) \<and>
      uploadList (uploadReport s') = uploadList (uploadReport s) \<and>
      failures (uploadReport s') = failures (uploadReport s) \<and>
      failedList (uploadReport s') = failedList (uploadReport s) \<and>
      failedFolderCreations (uploadReport s') = failedFolderCreations (uploadReport s) \<and>
      lockedFiles (uploadReport s) \<le> lockedFiles (uploadReport s') \<and>
      (\<exists>reqs. set reqs \<subseteq> R \<and> trace s' = trace s @ map Fetch reqs))"

text \<open>The request of every attempt to upload a file.\<close>

definition upload_request :: "'w host \<Rightarrow> string \<Rightarrow> string \<Rightarrow> string \<Rightarrow> upload_file \<Rightarrow> request" where
  "upload_request h accessToken driveId folderId file =
     (GRAPH_API @ upload_endpoint driveId folderId file, upload_init h accessToken file)"

definition builder_only :: "'w state \<Rightarrow> 'w state \<Rightarrow> bool" where
  "builder_only s s' =
     (sourceStructure s' = sourceStructure s \<and> outputs s' = outputs s \<and>
      uploads (uploadReport s') = uploads (uploadReport s) \<and>
      uploadList (uploadReport s') = uploadList (uploadReport s) \<and>
      failures (uploadReport s') = failures (uploadReport s) \<and>
      failedList (uploadReport s') = failedList (uploadReport s))"

text \<open>The inputs and the local tree of the example runs.\<close>

definition example_inputs :: inputs where
  "example_inputs =
     \<lparr>access_token = ''T'', drive_id = ''D'', folder_id = ''ROOT'',
      zip_contents_path = ''/tmp'', delay_input = ''10''\<rparr>"

definition example_tree :: fsnode where
  "example_tree = Directory [(''a'', Directory [(''one.txt'', File), (''two.txt'', File)])]"

text \<open>Three scripts for the remote: the folder is created and the second of two uploads
  finds its file locked; the creation of the folder is answered 503 once; the folder
  exists already and the listing finds it.\<close>

definition locked_script :: "(js_error + response) list" where
  "locked_script =
     [Inr (reply 201 None (Some (item ''A1''))),
      Inr (reply 200 None (Some (item ''F1''))),
      Inr (reply 423 None None)]"

definition busy_script :: "(js_error + response) list" where
  "busy_script =
     [Inr (reply 503 None None),
      Inr (reply 201 None (Some (item ''A1'')))]"

definition conflict_script :: "(js_error + response) list" where
  "conflict_script =
     [Inr (reply 409 None None),
      Inr (reply 200 None (Some (listing [''A1''])))]"

definition one_txt :: upload_file where
  "one_txt = \<lparr>entry_name = ''one.txt'', path = ''/tmp/docx/a/one.txt'',
               relative = ''/a/one.txt''\<rparr>"

definition two_txt :: upload_file where
  "two_txt = \<lparr>entry_name = ''two.txt'', path = ''/tmp/docx/a/two.txt'',
               relative = ''/a/two.txt''\<rparr>"

text \<open>A list of folders that names \<open>a\<close> twice and \<open>a/b\<close> once, and a remote that
  creates both.\<close>

definition shared_folders :: "entry list" where
  "shared_folders =
     [\<lparr>entry_name = ''a'', path = ''/a''\<rparr>,
      \<lparr>entry_name = ''b'', path = ''/a/b''\<rparr>,
      \<lparr>entry_name = ''a'', path = ''/a''\<rparr>]"

definition created_script :: "(js_error + response) list" where
  "created_script =
     [Inr (reply 201 None (Some (item ''A1''))),
      Inr (reply 201 None (Some (item ''B1'')))]"

section \<open>The retry executor: recovery and waits\<close>

lemma thrown_Suc: "thrown operation s (Suc i) = thrown operation (snd (operation s)) i"
  by (simp add: thrown_def)

lemma map_upt_shift: "map f [0..<Suc n] = f 0 # map (\<lambda>i. f (Suc i)) [0..<n]"
  by (simp add: upt_conv_Cons map_Suc_upt [symmetric] del: upt_Suc)

text \<open>When the operation throws retryable errors \<open>K\<close> times and then returns, with \<open>K\<close>
  retries allowed, the loop returns that value after \<open>K + 1\<close> invocations.\<close>

lemma retry_loop_recovers:
  assumes "int (a + K) \<le> maxRetries"
    and "\<forall>i<K. \<exists>e. thrown operation s i = Some e \<and> fst (classify (a + i) e)"
    and "fst (operation (state_after operation s K)) = Inr r"
  shows "retry_loop classify baseDelay exhausted operation maxRetries a lastError s =
           \<lparr>outcome = Inr r, invocations = Suc K,
            waits = map (\<lambda>i. waitTime baseDelay (a + i)
                      (snd (classify (a + i) (the (thrown operation s i))))) [0..<K],
            final = state_after operation s (Suc K)\<rparr>"
  using assms
proof (induction K arbitrary: a s lastError)
  case 0
  then obtain s' where "operation s = (Inr r, s')"
    by (cases "operation s") auto
  with 0 show ?case
    by (subst retry_loop.simps) simp
next
  case (Suc K)
  from Suc.prems(2) obtain e where e: "thrown operation s 0 = Some e" "fst (classify a e)"
    by force
  then obtain s' where op: "operation s = (Inl e, s')"
    by (cases "operation s") (auto simp: thrown_def split: sum.splits)
  obtain d where cl: "classify a e = (True, d)"
    using e(2) by (cases "classify a e") auto
  have less: "int a < maxRetries" using Suc.prems(1) by simp
  have IH: "retry_loop classify baseDelay exhausted operation maxRetries (Suc a) (Some e) s' =
           \<lparr>outcome = Inr r, invocations = Suc K,
            waits = map (\<lambda>i. waitTime baseDelay (Suc a + i)
                      (snd (classify (Suc a + i) (the (thrown operation s' i))))) [0..<K],
            final = state_after operation s' (Suc K)\<rparr>"
  proof (rule Suc.IH)
    show "int (Suc a + K) \<le> maxRetries" using Suc.prems(1) by simp
    show "\<forall>i<K. \<exists>e. thrown operation s' i = Some e \<and> fst (classify (Suc a + i) e)"
    proof (intro allI impI)
      fix i assume "i < K"
      then have "Suc i < Suc K" by simp
      with Suc.prems(2) obtain e' where
        "thrown operation s (Suc i) = Some e'" "fst (classify (a + Suc i) e')" by blast
      then show "\<exists>e. thrown operation s' i = Some e \<and> fst (classify (Suc a + i) e)"
        using op by (auto simp: thrown_Suc)
    qed
    show "fst (operation (state_after operation s' K)) = Inr r"
      using Suc.prems(3) op by simp
  qed
  show ?case
    apply (subst retry_loop.simps)
    using less
    apply (simp add: op cl IH e map_upt_shift thrown_Suc del: upt_Suc)
    done
qed

lemma flaky_state_after: "state_after (flaky e K) n i = n + i"
  by (induction i arbitrary: n) (simp_all add: flaky_def)

lemma flaky_thrown: "thrown (flaky e K) n i = (if n + i < K then Some e else None)"
  by (simp add: thrown_def flaky_state_after) (simp add: flaky_def)

lemma busy_upload: "fst (upload_classify h i (GraphApiError msg (reply 503 ra j)))"
  by (simp add: upload_classify_def GraphApiError_def reply_def upload_retryableStatuses_def)

lemma busy_download: "fst (download_classify h i (HttpError msg (reply 503 ra j)))"
  by (simp add: download_classify_def HttpError_def reply_def download_retryableStatuses_def)

text \<open>
  C1. For every operation and every maximum retry count: when the first \<open>K\<close>
  invocations throw errors the executor classifies as retryable, \<open>K\<close> is at most
  \<open>maxRetries\<close>, and invocation \<open>K + 1\<close> returns \<open>r\<close>, then the executor returns \<open>r\<close>
  and has invoked the operation exactly \<open>K + 1\<close> times. This holds of
  \<^verbatim>\<open>retryUploadOperation\<close> and of \<^verbatim>\<open>retryDownloadOperation\<close>.
\<close>

theorem retry_succeeds_after_K_failures:
  assumes "int K \<le> maxRetries"
    and "fst (operation (state_after operation s K)) = Inr r"
  shows "((\<forall>i<K. \<exists>e. thrown operation s i = Some e \<and> fst (upload_classify h i e)) \<longrightarrow>
            outcome (retryUploadOperation h operation context maxRetries s) = Inr r \<and>
            invocations (retryUploadOperation h operation context maxRetries s) = K + 1) \<and>
         ((\<forall>i<K. \<exists>e. thrown operation s i = Some e \<and> fst (download_classify h i e)) \<longrightarrow>
            outcome (retryDownloadOperation h operation context maxRetries s) = Inr r \<and>
            invocations (retryDownloadOperation h operation context maxRetries s) = K + 1)"
proof (intro conjI impI)
  assume "\<forall>i<K. \<exists>e. thrown operation s i = Some e \<and> fst (upload_classify h i e)"
  then have *: "\<forall>i<K. \<exists>e. thrown operation s i = Some e \<and> fst (upload_classify h (0 + i) e)"
    by simp
  have **: "int (0 + K) \<le> maxRetries" using assms(1) by simp
  show "outcome (retryUploadOperation h operation context maxRetries s) = Inr r"
    unfolding retryUploadOperation_def
    by (subst retry_loop_recovers [OF ** * assms(2)]) simp
  show "invocations (retryUploadOperation h operation context maxRetries s) = K + 1"
    unfolding retryUploadOperation_def
    by (subst retry_loop_recovers [OF ** * assms(2)]) simp
next
  assume "\<forall>i<K. \<exists>e. thrown operation s i = Some e \<and> fst (download_classify h i e)"
  then have *: "\<forall>i<K. \<exists>e. thrown operation s i = Some e \<and> fst (download_classify h (0 + i) e)"
    by simp
  have **: "int (0 + K) \<le> maxRetries" using assms(1) by simp
  show "outcome (retryDownloadOperation h operation context maxRetries s) = Inr r"
    unfolding retryDownloadOperation_def
    by (subst retry_loop_recovers [OF ** * assms(2)]) simp
  show "invocations (retryDownloadOperation h operation context maxRetries s) = K + 1"
    unfolding retryDownloadOperation_def
    by (subst retry_loop_recovers [OF ** * assms(2)]) simp
qed

text \<open>Two failures with status 503 and two retries allowed: three invocations; three
  failures and three retries in the download executor: four invocations.\<close>

theorem retry_succeeds_after_K_failures_witness:
  "outcome (retryUploadOperation example_host
      (flaky (GraphApiError ''Graph API error 503: '' (reply 503 None None)) 2) ''/a'' 2 0)
     = Inr ''done'' \<and>
   invocations (retryUploadOperation example_host
      (flaky (GraphApiError ''Graph API error 503: '' (reply 503 None None)) 2) ''/a'' 2 0)
     = 3 \<and>
   outcome (retryDownloadOperation example_host
      (flaky (HttpError ''HTTP 503'' (reply 503 None None)) 3) ''zip'' 3 0) = Inr ''done'' \<and>
   invocations (retryDownloadOperation example_host
      (flaky (HttpError ''HTTP 503'' (reply 503 None None)) 3) ''zip'' 3 0) = 4"
  using retry_succeeds_after_K_failures [of 2 2
      "flaky (GraphApiError ''Graph API error 503: '' (reply 503 None None)) 2" 0 "''done''"
      example_host "''/a''"]
    retry_succeeds_after_K_failures [of 3 3
      "flaky (HttpError ''HTTP 503'' (reply 503 None None)) 3" 0 "''done''"
      example_host "''zip''"]
  by (simp add: flaky_state_after flaky_thrown busy_upload busy_download) (simp add: flaky_def)





text \<open>
  The milliseconds are decided by the product as a double, not by the real product: a
  header whose seconds \<open>x\<close> have a product with 1000 that rounds to the double 1000.5
  gives 1001 ms, also when the real \<open>x * 1000\<close> lies below 1000.5.
\<close>

lemma rounded_product_decides:
  assumes "retryAfter res = Some ra" and "ra \<noteq> []" and "parseFloat h ra = Finite x"
    and "to_double h (x * 1000) = Finite (2001 / 2)"
  shows "getRetryAfterDelay h now res = Some (Finite 1001)"
  using assms by (simp add: getRetryAfterDelay_def)




section \<open>The directory scanner\<close>

lemma scan_errors_differ:
  "scandir_error p \<noteq> no_content_error d" "notdir_error p \<noteq> no_content_error d"
  by (simp_all add: scandir_error_def notdir_error_def no_content_error_def Error_def)

text \<open>Below the top level the only failures are those of reading a directory.\<close>

lemma nested_scan_error:
  "populateSourceStructure h srcFolder node False s = (Inl e, s1) \<Longrightarrow>
     e \<noteq> no_content_error d"
  "populate_entries h srcFolder entries s = (Inl e, s1) \<Longrightarrow> e \<noteq> no_content_error d"
proof (induction h srcFolder node "False" s and h srcFolder entries s
    arbitrary: s1 and s1 rule: populateSourceStructure_populate_entries.induct)
  case (1 h srcFolder entries s)
  then show ?case by simp
next
  case (2 h srcFolder isTopLevel s)
  then show ?case by (auto simp: scan_errors_differ)
next
  case (3 h srcFolder isTopLevel s)
  then show ?case by (auto simp: scan_errors_differ)
next
  case (4 h srcFolder isTopLevel s)
  then show ?case by (auto simp: scan_errors_differ)
next
  case (5 h srcFolder s)
  then show ?case by simp
next
  case (6 h srcFolder nm node entries s)
  then show ?case
    by (auto simp: Let_def split: if_splits prod.splits sum.splits)
qed

lemma readable_scan:
  "readable node \<Longrightarrow> isDirectory node \<Longrightarrow>
     fst (populateSourceStructure h srcFolder node False s) = Inr ()"
  "readable_entries entries \<Longrightarrow> fst (populate_entries h srcFolder entries s) = Inr ()"
proof (induction h srcFolder node "False" s and h srcFolder entries s
    rule: populateSourceStructure_populate_entries.induct)
  case (6 h srcFolder nm node entries s)
  show ?case
  proof (cases "isDirectory node")
    case True
    with 6 have "fst (populateSourceStructure h (path_join h srcFolder nm) node False
        (push_folder \<lparr>entry_name = nm, path = path_join h srcFolder nm\<rparr> s)) = Inr ()"
      by simp
    then obtain s1 where s1: "populateSourceStructure h (path_join h srcFolder nm) node False
        (push_folder \<lparr>entry_name = nm, path = path_join h srcFolder nm\<rparr> s) = (Inr (), s1)"
      by (metis prod.collapse)
    with 6 True show ?thesis by (simp add: Let_def)
  next
    case False
    with 6 show ?thesis by (simp add: Let_def)
  qed
qed simp_all

text \<open>
  C8. The scanner fails with the no-content error exactly when the top-level directory
  has no entry. An empty directory below the top level is no error, a tree whose
  directories can all be read and whose top level is not empty is scanned without
  error, and an entry that is neither a file nor a directory is skipped, at any level.
\<close>

theorem scanner_no_content:
  "((\<exists>d. fst (populateSourceStructure h srcFolder (Directory entries) True s)
           = Inl (no_content_error d)) \<longleftrightarrow> entries = []) \<and>
   fst (populateSourceStructure h srcFolder (Directory []) True s)
     = Inl (no_content_error srcFolder) \<and>
   populateSourceStructure h srcFolder (Directory []) False s = (Inr (), s) \<and>
   (entries \<noteq> [] \<and> readable_entries entries \<longrightarrow>
      fst (populateSourceStructure h srcFolder (Directory entries) True s) = Inr ()) \<and>
   populate_entries h srcFolder ((nm, Other) # entries) s
     = populate_entries h srcFolder entries s"
proof (intro conjI)
  show "(\<exists>d. fst (populateSourceStructure h srcFolder (Directory entries) True s)
           = Inl (no_content_error d)) \<longleftrightarrow> entries = []"
  proof
    assume "\<exists>d. fst (populateSourceStructure h srcFolder (Directory entries) True s)
           = Inl (no_content_error d)"
    then obtain d where d: "fst (populateSourceStructure h srcFolder (Directory entries) True s)
           = Inl (no_content_error d)" ..
    show "entries = []"
    proof (rule ccontr)
      assume ne: "entries \<noteq> []"
      with d have "fst (populate_entries h srcFolder entries s) = Inl (no_content_error d)"
        by simp
      then obtain s1 where "populate_entries h srcFolder entries s = (Inl (no_content_error d), s1)"
        by (metis prod.collapse)
      from nested_scan_error(2) [OF this, of d] show False by simp
    qed
  next
    assume "entries = []"
    then show "\<exists>d. fst (populateSourceStructure h srcFolder (Directory entries) True s)
           = Inl (no_content_error d)"
      by auto
  qed
qed (simp_all add: readable_scan Let_def)

text \<open>A tree with an empty subdirectory, a symbolic link and a file.\<close>

theorem scanner_no_content_witness:
  "fst (populateSourceStructure example_host ''/tmp/docx''
         (Directory [(''a'', Directory []), (''link'', Other), (''one.txt'', File)]) True
         (initial_state [])) = Inr () \<and>
   sourceStructure (snd (populateSourceStructure example_host ''/tmp/docx''
         (Directory [(''a'', Directory []), (''link'', Other), (''one.txt'', File)]) True
         (initial_state []))) =
     \<lparr>folders = [\<lparr>entry_name = ''a'', path = ''/tmp/docx/a''\<rparr>],
      files = [\<lparr>entry_name = ''one.txt'', path = ''/tmp/docx/one.txt''\<rparr>]\<rparr>"
  using scanner_no_content [of example_host "''/tmp/docx''"
      "[(''a'', Directory []), (''link'', Other), (''one.txt'', File)]" "initial_state []"]
  by (simp add: Let_def example_host_def initial_state_def push_folder_def push_file_def)

section \<open>What the requests leave alone\<close>

lemma fetch_only_refl: "fetch_only R s s"
  by (auto simp: fetch_only_def intro: exI [where x = "[]"])

lemma fetch_only_trans:
  assumes "fetch_only R s s1" "fetch_only R s1 s2"
  shows "fetch_only R s s2"
proof -
  from assms(1) obtain reqs1 where 1: "set reqs1 \<subseteq> R" "trace s1 = trace s @ map Fetch reqs1"
    by (auto simp: fetch_only_def)
  from assms(2) obtain reqs2 where 2: "set reqs2 \<subseteq> R" "trace s2 = trace s1 @ map Fetch reqs2"
    by (auto simp: fetch_only_def)
  have "set (reqs1 @ reqs2) \<subseteq> R \<and> trace s2 = trace s @ map Fetch (reqs1 @ reqs2)"
    using 1 2 by simp
  then have "\<exists>reqs. set reqs \<subseteq> R \<and> trace s2 = trace s @ map Fetch reqs" by blast
  with assms show ?thesis
    by (simp add: fetch_only_def)
qed

lemma js_fetch_only:
  assumes "js_fetch h url i s = (r, s1)" "(url, i) \<in> R"
  shows "fetch_only R s s1"
proof -
  have "set [(url, i)] \<subseteq> R \<and> trace s1 = trace s @ map Fetch [(url, i)]"
    using assms by (auto simp: js_fetch_def split: prod.splits)
  then have "\<exists>reqs. set reqs \<subseteq> R \<and> trace s1 = trace s @ map Fetch reqs" by blast
  with assms show ?thesis
    by (auto simp: fetch_only_def js_fetch_def split: prod.splits)
qed

lemma count_locked_only: "fetch_only R s (count_locked s)"
  by (auto simp: fetch_only_def count_locked_def intro: exI [where x = "[]"])

lemma graphFetch_only:
  assumes "graphFetch h token endpoint initOptions s = (r, s1)"
    and "(GRAPH_API @ endpoint, case initOptions of Some i \<Rightarrow> i | None \<Rightarrow> default_init token) \<in> R"
  shows "fetch_only R s s1"
proof -
  let ?i = "case initOptions of Some i \<Rightarrow> i | None \<Rightarrow> default_init token"
  obtain r0 s0 where f: "js_fetch h (GRAPH_API @ endpoint) ?i s = (r0, s0)"
    by (cases "js_fetch h (GRAPH_API @ endpoint) ?i s")
  note a = js_fetch_only [OF f assms(2)]
  have "s1 = s0 \<or> s1 = count_locked s0"
    using assms(1) f by (auto simp: graphFetch_def Let_def split: sum.splits if_splits option.splits)
  then show ?thesis
    using a fetch_only_trans [OF a count_locked_only] by auto
qed

lemma retry_loop_final:
  assumes "\<And>s r s1. operation s = (r, s1) \<Longrightarrow> Q s \<Longrightarrow> Q s1" and "Q s"
  shows "Q (final (retry_loop classify baseDelay exhausted operation maxRetries attempt lastError s))"
  using assms
proof (induction classify baseDelay exhausted operation maxRetries attempt lastError s
    rule: retry_loop.induct)
  case (1 classify baseDelay exhausted operation maxRetries attempt lastError s)
  note step = "1.prems"(1)
  show ?case
  proof (cases "int attempt \<le> maxRetries")
    case False
    then show ?thesis using "1.prems"(2) by (subst retry_loop.simps) simp
  next
    case le: True
    obtain r s1 where op: "operation s = (r, s1)" by (cases "operation s")
    have Q1: "Q s1" using step [OF op "1.prems"(2)] .
    show ?thesis
    proof (cases r)
      case (Inr v)
      then show ?thesis using le op Q1 by (subst retry_loop.simps) simp
    next
      case (Inl e)
      obtain b d where cl: "classify attempt e = (b, d)" by (cases "classify attempt e")
      show ?thesis
      proof (cases "int attempt < maxRetries \<and> b")
        case True
        have "Q (final (retry_loop classify baseDelay exhausted operation maxRetries
                  (Suc attempt) (Some e) s1))"
          using "1.IH" [OF le op [symmetric] Inl cl [symmetric] True step Q1] .
        then show ?thesis
          using le op Inl cl True by (subst retry_loop.simps) (simp add: Let_def)
      next
        case False
        then show ?thesis
          using le op Inl cl Q1 by (subst retry_loop.simps) auto
      qed
    qed
  qed
qed

lemma retry_fetch_only:
  assumes "\<And>s r s1. operation s = (r, s1) \<Longrightarrow> fetch_only R s s1"
  shows "fetch_only R s (final (retryUploadOperation h operation context maxRetries s))"
  unfolding retryUploadOperation_def
  by (rule retry_loop_final [where Q = "fetch_only R s"])
     (auto intro: fetch_only_refl fetch_only_trans assms)

lemma upload_operation_only:
  assumes "upload_operation h accessToken driveId folderId file s = (r, s1)"
  shows "fetch_only {upload_request h accessToken driveId folderId file} s s1"
proof -
  obtain r0 where "graphFetch h accessToken (upload_endpoint driveId folderId file)
             (Some (upload_init h accessToken file)) s = (r0, s1)"
    using assms by (auto simp: upload_operation_def split: prod.splits sum.splits)
  then show ?thesis
    by (rule graphFetch_only) (simp add: upload_request_def)
qed

lemma uploadFileWithRetry_only:
  assumes "uploadFileWithRetry h accessToken driveId folderId file s = (success, s1)"
  shows "fetch_only {upload_request h accessToken driveId folderId file} s s1"
proof -
  have "s1 = final (retryUploadOperation h (upload_operation h accessToken driveId folderId file)
                (path file) (UPLOAD_MAX_RETRIES h) s)"
    using assms by (auto simp: uploadFileWithRetry_def Let_def split: sum.splits)
  then show ?thesis
    by (simp add: retry_fetch_only upload_operation_only)
qed

lemma builder_only_refl: "builder_only s s"
  by (simp add: builder_only_def)

lemma builder_only_trans: "builder_only s s1 \<Longrightarrow> builder_only s1 s2 \<Longrightarrow> builder_only s s2"
  by (simp add: builder_only_def)

lemma fetch_only_builder: "fetch_only R s s1 \<Longrightarrow> builder_only s s1"
  by (simp add: fetch_only_def builder_only_def)

lemma builder_only_simple:
  "builder_only s (sleep ms s)" "builder_only s (count_failed_folder s)"
  "builder_only s (s\<lparr>trace := t\<rparr>)"
  by (simp_all add: builder_only_def sleep_def count_failed_folder_def)

lemma graphFetchWithRetry_only:
  "fetch_only UNIV s (final (graphFetchWithRetry h token endpoint initOptions s))"
  unfolding graphFetchWithRetry_def
  by (rule retry_fetch_only) (erule graphFetch_only, simp)

lemma create_segment_builder:
  assumes "create_segment h accessToken driveId delay segment v s = (r, s1)"
  shows "builder_only s s1"
proof -
  obtain currentPath0 parentId folderMap where v: "v = (currentPath0, parentId, folderMap)"
    by (cases v)
  let ?cur = "next_path currentPath0 segment"
  let ?s0 = "s\<lparr>trace := trace s @ [Creating ?cur parentId folderMap]\<rparr>"
  show ?thesis
  proof (cases "map_of folderMap ?cur")
    case (Some cached)
    with assms v show ?thesis
      by (simp add: create_segment_def Let_def builder_only_refl)
  next
    case None
    obtain r0 sa where f: "js_fetch h (children_url driveId parentId)
        (create_init accessToken segment) ?s0 = (r0, sa)"
      by (cases "js_fetch h (children_url driveId parentId) (create_init accessToken segment) ?s0")
    have a: "builder_only s sa"
      using builder_only_trans [OF builder_only_simple(3)
          fetch_only_builder [OF js_fetch_only [OF f, of UNIV]]] by simp
    let ?r = "graphFetchWithRetry h accessToken (existing_endpoint driveId parentId segment) None sa"
    have b: "builder_only s (final ?r)"
      using builder_only_trans [OF a fetch_only_builder [OF graphFetchWithRetry_only]] .
    have "s1 = sa \<or> s1 = count_failed_folder sa \<or> s1 = final ?r \<or> s1 = sleep delay (final ?r)"
      using assms v None f
      by (auto simp: create_segment_def Let_def split: sum.splits if_splits option.splits list.splits)
    then show ?thesis
      using a b builder_only_trans [OF a builder_only_simple(2)]
        builder_only_trans [OF b builder_only_simple(1)]
      by auto
  qed
qed

lemma walk_segments_builder:
  "walk_segments h accessToken driveId delay segments v s = (r, s1) \<Longrightarrow> builder_only s s1"
proof (induction segments arbitrary: v s)
  case Nil
  then show ?case by (simp add: builder_only_refl)
next
  case (Cons segment segments)
  obtain r0 sa where c: "create_segment h accessToken driveId delay segment v s = (r0, sa)"
    by (cases "create_segment h accessToken driveId delay segment v s")
  note a = create_segment_builder [OF c]
  show ?case
  proof (cases r0)
    case (Inl e)
    with Cons.prems c a show ?thesis by simp
  next
    case (Inr v1)
    with Cons.prems c have "walk_segments h accessToken driveId delay segments v1 sa = (r, s1)"
      by simp
    from builder_only_trans [OF a Cons.IH [OF this]] show ?thesis .
  qed
qed

lemma create_folders_builder:
  "create_folders h accessToken driveId folderId delay sourceFolders folderMap s = (r, s1) \<Longrightarrow>
     builder_only s s1"
proof (induction sourceFolders arbitrary: folderMap s)
  case Nil
  then show ?case by (simp add: builder_only_refl)
next
  case (Cons folder sourceFolders)
  obtain r0 sa where w: "walk_segments h accessToken driveId delay
      (str_split CHR ''/'' (path folder)) (None, folderId, folderMap) s = (r0, sa)"
    by (cases "walk_segments h accessToken driveId delay
      (str_split CHR ''/'' (path folder)) (None, folderId, folderMap) s")
  note a = walk_segments_builder [OF w]
  show ?case
  proof (cases r0)
    case (Inl e)
    with Cons.prems w a show ?thesis by simp
  next
    case (Inr v1)
    obtain c p m where v1: "v1 = (c, p, m)" by (cases v1)
    with Inr Cons.prems w
    have "create_folders h accessToken driveId folderId delay sourceFolders m sa = (r, s1)"
      by simp
    from builder_only_trans [OF a Cons.IH [OF this]] show ?thesis .
  qed
qed

lemma createFoldersIfNecessary_builder:
  assumes "createFoldersIfNecessary h accessToken driveId folderId sourceFolders delay s = (r, s1)"
  shows "builder_only s s1"
proof -
  obtain r0 where "create_folders h accessToken driveId folderId delay sourceFolders
      [([], folderId)] s = (r0, s1)"
    using assms by (auto simp: createFoldersIfNecessary_def split: prod.splits sum.splits)
  then show ?thesis by (rule create_folders_builder)
qed

lemma populate_report:
  "uploadReport (snd (populateSourceStructure h srcFolder node isTopLevel s)) = uploadReport s"
  "uploadReport (snd (populate_entries h srcFolder entries s)) = uploadReport s"
  by (induction h srcFolder node isTopLevel s and h srcFolder entries s
      rule: populateSourceStructure_populate_entries.induct)
     (auto simp: Let_def push_folder_def push_file_def split: prod.splits sum.splits)


lemma uploadFiles_outcomes:
  "\<exists>oks. length oks = length sourceFiles \<and>
     uploadList (uploadReport (uploadFiles h accessToken driveId folderId sourceFiles delay s)) =
       uploadList (uploadReport s) @ map (relative \<circ> fst) (filter snd (zip sourceFiles oks)) \<and>
     failedList (uploadReport (uploadFiles h accessToken driveId folderId sourceFiles delay s)) =
       failedList (uploadReport s) @ map (path \<circ> fst) (filter (Not \<circ> snd) (zip sourceFiles oks)) \<and>
     uploads (uploadReport (uploadFiles h accessToken driveId folderId sourceFiles delay s)) =
       uploads (uploadReport s) + length (filter snd (zip sourceFiles oks)) \<and>
     failures (uploadReport (uploadFiles h accessToken driveId folderId sourceFiles delay s)) =
       failures (uploadReport s) + length (filter (Not \<circ> snd) (zip sourceFiles oks))"
proof (induction sourceFiles arbitrary: s)
  case Nil
  then show ?case by simp
next
  case (Cons item sourceFiles)
  obtain success s1 where u: "uploadFileWithRetry h accessToken driveId folderId item s = (success, s1)"
    by (cases "uploadFileWithRetry h accessToken driveId folderId item s")
  from uploadFileWithRetry_only [OF u] have same:
    "uploads (uploadReport s1) = uploads (uploadReport s)"
    "uploadList (uploadReport s1) = uploadList (uploadReport s)"
    "failures (uploadReport s1) = failures (uploadReport s)"
    "failedList (uploadReport s1) = failedList (uploadReport s)"
    by (simp_all add: fetch_only_def)
  let ?s2 = "sleep delay (if success then record_upload item s1 else record_failure item s1)"
  from Cons.IH [of ?s2] obtain oks where oks: "length oks = length sourceFiles"
     "uploadList (uploadReport (uploadFiles h accessToken driveId folderId sourceFiles delay ?s2)) =
       uploadList (uploadReport ?s2) @ map (relative \<circ> fst) (filter snd (zip sourceFiles oks))"
     "failedList (uploadReport (uploadFiles h accessToken driveId folderId sourceFiles delay ?s2)) =
       failedList (uploadReport ?s2) @ map (path \<circ> fst) (filter (Not \<circ> snd) (zip sourceFiles oks))"
     "uploads (uploadReport (uploadFiles h accessToken driveId folderId sourceFiles delay ?s2)) =
       uploads (uploadReport ?s2) + length (filter snd (zip sourceFiles oks))"
     "failures (uploadReport (uploadFiles h accessToken driveId folderId sourceFiles delay ?s2)) =
       failures (uploadReport ?s2) + length (filter (Not \<circ> snd) (zip sourceFiles oks))"
    by blast
  show ?case
  proof (rule exI [where x = "success # oks"], cases success)
    case True
    then show "length (success # oks) = length (item # sourceFiles) \<and>
     uploadList (uploadReport (uploadFiles h accessToken driveId folderId (item # sourceFiles) delay s)) =
       uploadList (uploadReport s) @ map (relative \<circ> fst) (filter snd (zip (item # sourceFiles) (success # oks))) \<and>
     failedList (uploadReport (uploadFiles h accessToken driveId folderId (item # sourceFiles) delay s)) =
       failedList (uploadReport s) @ map (path \<circ> fst) (filter (Not \<circ> snd) (zip (item # sourceFiles) (success # oks))) \<and>
     uploads (uploadReport (uploadFiles h accessToken driveId folderId (item # sourceFiles) delay s)) =
       uploads (uploadReport s) + length (filter snd (zip (item # sourceFiles) (success # oks))) \<and>
     failures (uploadReport (uploadFiles h accessToken driveId folderId (item # sourceFiles) delay s)) =
       failures (uploadReport s) + length (filter (Not \<circ> snd) (zip (item # sourceFiles) (success # oks)))"
      using oks u same by (simp add: sleep_def record_upload_def)
  next
    case False
    then show "length (success # oks) = length (item # sourceFiles) \<and>
     uploadList (uploadReport (uploadFiles h accessToken driveId folderId (item # sourceFiles) delay s)) =
       uploadList (uploadReport s) @ map (relative \<circ> fst) (filter snd (zip (item # sourceFiles) (success # oks))) \<and>
     failedList (uploadReport (uploadFiles h accessToken driveId folderId (item # sourceFiles) delay s)) =
       failedList (uploadReport s) @ map (path \<circ> fst) (filter (Not \<circ> snd) (zip (item # sourceFiles) (success # oks))) \<and>
     uploads (uploadReport (uploadFiles h accessToken driveId folderId (item # sourceFiles) delay s)) =
       uploads (uploadReport s) + length (filter snd (zip (item # sourceFiles) (success # oks))) \<and>
     failures (uploadReport (uploadFiles h accessToken driveId folderId (item # sourceFiles) delay s)) =
       failures (uploadReport s) + length (filter (Not \<circ> snd) (zip (item # sourceFiles) (success # oks)))"
      using oks u same by (simp add: sleep_def record_failure_def)
  qed
qed





section \<open>Example runs\<close>

lemma example_host_simps:
  "fetch example_host = scripted"
  "parseFloat example_host = read_decimal"
  "parseInt example_host = read_decimal"
  "to_double example_host = Finite"
  "Date_parse example_host = (\<lambda>str. None)"
  "Date_now example_host = (\<lambda>i. 0)"
  "path_join example_host = (\<lambda>dir nm. dir @ ''/'' @ nm)"
  "mime_lookup example_host = (\<lambda>p. None)"
  "UPLOAD_MAX_RETRIES example_host = 2"
  "UPLOAD_BASE_DELAY example_host = 1000"
  by (simp_all add: example_host_def)

lemmas example_eval =
  example_host_simps example_inputs_def example_tree_def Let_def initial_state_def
  push_folder_def push_file_def createFoldersIfNecessary_def create_segment_def next_path_def
  js_fetch_def scripted_def reply_def ok_def item_def listing_def sleep_def
  uploadFileWithRetry_def graphFetchWithRetry_def retryUploadOperation_def retry_loop.simps
  upload_operation_def graphFetch_def record_upload_def record_failure_def upload_classify_def
  GraphApiError_def upload_retryableStatuses_def count_locked_def count_failed_folder_def
  read_decimal_def digit_value_def upt_conv_Cons show_nat.simps digit_def

text \<open>The run in which the folder is created, the first file is uploaded and the
  second is locked.\<close>

lemma locked_run:
  "run_body example_host example_inputs (Some example_tree) (initial_state locked_script) =
     (Inr (),
      setOutput ''error_message''
        (cross_mark @ '' Upload Error: Some uploads failed. Check the workflow for more details.'')
        \<lparr>remote = [],
         uploadReport =
           \<lparr>uploads = 1, uploadList = [''/a/one.txt''], failures = 1,
            failedList = [''/tmp/docx/a/two.txt''], failedFolderCreations = 0, lockedFiles = 1\<rparr>,
         sourceStructure =
           \<lparr>folders = [\<lparr>entry_name = ''a'', path = ''/tmp/docx/a''\<rparr>],
            files = [\<lparr>entry_name = ''one.txt'', path = ''/tmp/docx/a/one.txt''\<rparr>,
                     \<lparr>entry_name = ''two.txt'', path = ''/tmp/docx/a/two.txt''\<rparr>]\<rparr>,
         outputs = [],
         trace =
           [Creating ''a'' ''ROOT'' [([], ''ROOT'')],
            Fetch (children_url ''D'' ''ROOT'', create_init ''T'' ''a''),
            Fetch (upload_request example_host ''T'' ''D'' ''ROOT'' one_txt),
            Sleep (Finite 10),
            Fetch (upload_request example_host ''T'' ''D'' ''ROOT'' two_txt),
            Sleep (Finite 10)]\<rparr>)"
  by (simp add: run_body_def locked_script_def upload_request_def one_txt_def two_txt_def
        example_eval)


section \<open>The upload requests\<close>

lemma fetches_append: "fetches (xs @ ys) = fetches xs @ fetches ys"
  by (induction xs rule: fetches.induct) simp_all

lemma fetches_map_Fetch: "fetches (map Fetch reqs) = reqs"
  by (induction reqs) simp_all

lemma uploadFiles_requests:
  "\<exists>reqs. fetches (trace (uploadFiles h accessToken driveId folderId sourceFiles delay s)) =
            fetches (trace s) @ reqs \<and>
          set reqs \<subseteq> upload_request h accessToken driveId folderId ` set sourceFiles"
proof (induction sourceFiles arbitrary: s)
  case Nil
  then show ?case by simp
next
  case (Cons item sourceFiles)
  obtain success s1 where u: "uploadFileWithRetry h accessToken driveId folderId item s = (success, s1)"
    by (cases "uploadFileWithRetry h accessToken driveId folderId item s")
  from uploadFileWithRetry_only [OF u] obtain reqs1 where reqs1:
    "set reqs1 \<subseteq> {upload_request h accessToken driveId folderId item}"
    "trace s1 = trace s @ map Fetch reqs1"
    by (auto simp: fetch_only_def)
  let ?s2 = "sleep delay (if success then record_upload item s1 else record_failure item s1)"
  have t2: "fetches (trace ?s2) = fetches (trace s) @ reqs1"
    using reqs1(2)
    by (simp add: sleep_def record_upload_def record_failure_def fetches_append fetches_map_Fetch)
  from Cons.IH [of ?s2] obtain reqs2 where reqs2:
    "fetches (trace (uploadFiles h accessToken driveId folderId sourceFiles delay ?s2)) =
       fetches (trace ?s2) @ reqs2"
    "set reqs2 \<subseteq> upload_request h accessToken driveId folderId ` set sourceFiles"
    by blast
  have "fetches (trace (uploadFiles h accessToken driveId folderId (item # sourceFiles) delay s)) =
          fetches (trace s) @ (reqs1 @ reqs2) \<and>
        set (reqs1 @ reqs2) \<subseteq> upload_request h accessToken driveId folderId ` set (item # sourceFiles)"
    using u reqs1(1) reqs2 t2 by auto
  then show ?case by blast
qed

text \<open>
  C7, as amended. The folder map is local to the hierarchy builder, which returns
  nothing; the upload phase does not receive it. Every request the upload phase issues
  for a file is the PUT to
  \<^verbatim>\<open>/drives/{driveId}/items/{folderId}:{relative}:/content\<close>, where \<open>folderId\<close> is the root
  folder id given to the run and \<open>relative\<close> the whole path of the file under the sync
  root: the destination is addressed by path from the root.
\<close>

theorem uploads_addressed_from_root:
  "\<exists>reqs. fetches (trace (uploadFiles h accessToken driveId folderId sourceFiles delay s)) =
            fetches (trace s) @ reqs \<and>
          set reqs \<subseteq>
            (\<lambda>file. (GRAPH_API @ ''/drives/'' @ driveId @ ''/items/'' @ folderId @ '':''
                       @ relative file @ '':/content'',
                     upload_init h accessToken file)) ` set sourceFiles"
  using uploadFiles_requests [of h accessToken driveId folderId sourceFiles delay s]
  by (simp add: upload_request_def upload_endpoint_def)

lemma locked_run_trace:
  "fetches (trace (run example_host example_inputs (Some example_tree)
      (initial_state locked_script))) =
     [(children_url ''D'' ''ROOT'', create_init ''T'' ''a''),
      upload_request example_host ''T'' ''D'' ''ROOT'' one_txt,
      upload_request example_host ''T'' ''D'' ''ROOT'' two_txt]"
  by (simp add: run_def locked_run emit_report_def setOutput_def)

text \<open>The folder map the builder has when it returns in that run.\<close>

lemma locked_run_folderMap:
  "create_folders example_host ''T'' ''D'' ''ROOT'' (Finite 10)
          [\<lparr>entry_name = ''a'', path = ''/a''\<rparr>] [([], ''ROOT'')]
          (initial_state locked_script) =
     (Inr [([], ''ROOT''), (''a'', ''A1'')],
      \<lparr>remote = [Inr (reply 200 None (Some (item ''F1''))), Inr (reply 423 None None)],
       uploadReport = \<lparr>uploads = 0, uploadList = [], failures = 0, failedList = [],
                       failedFolderCreations = 0, lockedFiles = 0\<rparr>,
       sourceStructure = \<lparr>folders = [], files = []\<rparr>,
       outputs = [],
       trace = [Creating ''a'' ''ROOT'' [([], ''ROOT'')],
                Fetch (children_url ''D'' ''ROOT'', create_init ''T'' ''a'')]\<rparr>)"
  by (simp add: locked_script_def example_eval)

text \<open>
  C7 as stated fails: the builder caches the id A1 for the folder \<open>a\<close>, and the upload
  of \<open>a/one.txt\<close> goes to the root id with the whole relative path; the id A1 is not in
  the request.
\<close>

theorem upload_ignores_cache_counterexample:
  "fst (create_folders example_host ''T'' ''D'' ''ROOT'' (Finite 10)
          [\<lparr>entry_name = ''a'', path = ''/a''\<rparr>] [([], ''ROOT'')]
          (initial_state locked_script)) = Inr [([], ''ROOT''), (''a'', ''A1'')] \<and>
   fetches (trace (run example_host example_inputs (Some example_tree)
      (initial_state locked_script))) =
     [(children_url ''D'' ''ROOT'', create_init ''T'' ''a''),
      upload_request example_host ''T'' ''D'' ''ROOT'' one_txt,
      upload_request example_host ''T'' ''D'' ''ROOT'' two_txt] \<and>
   fst (upload_request example_host ''T'' ''D'' ''ROOT'' one_txt) =
     ''https://graph.microsoft.com/v1.0/drives/D/items/ROOT:/a/one.txt:/content'' \<and>
   fst (upload_request example_host ''T'' ''D'' ''ROOT'' one_txt) \<noteq>
     ''https://graph.microsoft.com/v1.0/drives/D/items/A1:/one.txt:/content'' \<and>
   \<not> str_includes (fst (upload_request example_host ''T'' ''D'' ''ROOT'' one_txt)) ''A1''"
proof (intro conjI)
  show "fst (create_folders example_host ''T'' ''D'' ''ROOT'' (Finite 10)
          [\<lparr>entry_name = ''a'', path = ''/a''\<rparr>] [([], ''ROOT'')]
          (initial_state locked_script)) = Inr [([], ''ROOT''), (''a'', ''A1'')]"
    by (subst locked_run_folderMap) simp
  show "fetches (trace (run example_host example_inputs (Some example_tree)
      (initial_state locked_script))) =
     [(children_url ''D'' ''ROOT'', create_init ''T'' ''a''),
      upload_request example_host ''T'' ''D'' ''ROOT'' one_txt,
      upload_request example_host ''T'' ''D'' ''ROOT'' two_txt]"
    by (rule locked_run_trace)
qed (simp_all add: upload_request_def upload_endpoint_def GRAPH_API_def one_txt_def)

text \<open>The one request of an upload that succeeds at once.\<close>

theorem uploads_addressed_from_root_witness:
  "fetches (trace (uploadFiles example_host ''T'' ''D'' ''ROOT'' [one_txt] (Finite 10)
      (initial_state [Inr (reply 200 None (Some (item ''F1'')))]))) =
     [(''https://graph.microsoft.com/v1.0/drives/D/items/ROOT:/a/one.txt:/content'',
       upload_init example_host ''T'' one_txt)]"
  using uploads_addressed_from_root [of example_host "''T''" "''D''" "''ROOT''" "[one_txt]"
      "Finite 10" "initial_state [Inr (reply 200 None (Some (item ''F1'')))]"]
  by (simp add: example_eval GRAPH_API_def upload_endpoint_def one_txt_def)

section \<open>Locked files, failed folders and the outputs of a run\<close>

text \<open>If an invocation can change a counter only by throwing an error that is not
  retryable, the executor leaves the counter alone or throws.\<close>

lemma retry_loop_unchanged_or_fails:
  assumes "\<And>s r s1 a. operation s = (r, s1) \<Longrightarrow>
             L s1 = L s \<or> (\<exists>e. r = Inl e \<and> \<not> fst (classify a e))"
  shows "L (final (retry_loop classify baseDelay exhausted operation maxRetries attempt lastError s)) = L s \<or>
         (\<exists>e. outcome (retry_loop classify baseDelay exhausted operation maxRetries attempt lastError s) = Inl e)"
  using assms
proof (induction classify baseDelay exhausted operation maxRetries attempt lastError s
    rule: retry_loop.induct)
  case (1 classify baseDelay exhausted operation maxRetries attempt lastError s)
  note step = "1.prems"
  show ?case
  proof (cases "int attempt \<le> maxRetries")
    case False
    then show ?thesis by (subst (1 2) retry_loop.simps) simp
  next
    case le: True
    obtain r s1 where op: "operation s = (r, s1)" by (cases "operation s")
    show ?thesis
    proof (cases r)
      case (Inr v)
      with step [OF op] have "L s1 = L s" by auto
      then show ?thesis using le op Inr by (subst (1 2) retry_loop.simps) simp
    next
      case (Inl e)
      obtain b d where cl: "classify attempt e = (b, d)" by (cases "classify attempt e")
      show ?thesis
      proof (cases "int attempt < maxRetries \<and> b")
        case True
        with step [OF op, of attempt] Inl cl have same: "L s1 = L s" by auto
        have "L (final (retry_loop classify baseDelay exhausted operation maxRetries
                  (Suc attempt) (Some e) s1)) = L s1 \<or>
              (\<exists>e'. outcome (retry_loop classify baseDelay exhausted operation maxRetries
                  (Suc attempt) (Some e) s1) = Inl e')"
          using "1.IH" [OF le op [symmetric] Inl cl [symmetric] True step] by blast
        then show ?thesis
          using le op Inl cl True same by (subst (1 2) retry_loop.simps) (simp add: Let_def)
      next
        case False
        then show ?thesis
          using le op Inl cl by (subst (1 2) retry_loop.simps) auto
      qed
    qed
  qed
qed

lemma locked_not_retryable:
  "status res = 423 \<Longrightarrow> \<not> fst (upload_classify h a (GraphApiError msg res))"
  by (simp add: upload_classify_def GraphApiError_def upload_retryableStatuses_def)

lemma js_fetch_report: "js_fetch h url i s = (r, s1) \<Longrightarrow> uploadReport s1 = uploadReport s"
  by (auto simp: js_fetch_def split: prod.splits)

lemma graphFetch_locked:
  assumes "graphFetch h token endpoint initOptions s = (r, s1)"
  shows "lockedFiles (uploadReport s1) = lockedFiles (uploadReport s) \<or>
         (\<exists>e. r = Inl e \<and> \<not> fst (upload_classify h a e))"
proof -
  let ?i = "case initOptions of Some i \<Rightarrow> i | None \<Rightarrow> default_init token"
  obtain r0 s0 where f: "js_fetch h (GRAPH_API @ endpoint) ?i s = (r0, s0)"
    by (cases "js_fetch h (GRAPH_API @ endpoint) ?i s")
  note js_fetch_report [OF f]
  then show ?thesis
    using assms f
    by (auto simp: graphFetch_def Let_def locked_not_retryable
        split: sum.splits if_splits option.splits)
qed

lemma graphFetchWithRetry_locked:
  "lockedFiles (uploadReport (final (graphFetchWithRetry h token endpoint initOptions s))) =
     lockedFiles (uploadReport s) \<or>
   (\<exists>e. outcome (graphFetchWithRetry h token endpoint initOptions s) = Inl e)"
  unfolding graphFetchWithRetry_def retryUploadOperation_def
  by (rule retry_loop_unchanged_or_fails [where L = "\<lambda>s. lockedFiles (uploadReport s)"])
     (rule graphFetch_locked)

lemma upload_operation_locked:
  assumes "upload_operation h accessToken driveId folderId file s = (r, s1)"
  shows "lockedFiles (uploadReport s1) = lockedFiles (uploadReport s) \<or>
         (\<exists>e. r = Inl e \<and> \<not> fst (upload_classify h a e))"
proof -
  obtain r0 where g: "graphFetch h accessToken (upload_endpoint driveId folderId file)
             (Some (upload_init h accessToken file)) s = (r0, s1)"
    using assms by (auto simp: upload_operation_def split: prod.splits sum.splits)
  from graphFetch_locked [OF g, of a] show ?thesis
    using assms g by (auto simp: upload_operation_def split: sum.splits)
qed

lemma uploadFileWithRetry_locked:
  assumes "uploadFileWithRetry h accessToken driveId folderId file s = (success, s1)"
  shows "lockedFiles (uploadReport s1) = lockedFiles (uploadReport s) \<or> \<not> success"
proof -
  let ?R = "retry_loop (upload_classify h) (UPLOAD_BASE_DELAY h)
       (Error (''Upload operation failed after '' @ show_int (UPLOAD_MAX_RETRIES h + 1)
               @ '' attempts for '' @ path file))
       (upload_operation h accessToken driveId folderId file) (UPLOAD_MAX_RETRIES h) 0 None s"
  have "lockedFiles (uploadReport (final ?R)) = lockedFiles (uploadReport s) \<or>
        (\<exists>e. outcome ?R = Inl e)"
    by (rule retry_loop_unchanged_or_fails [where L = "\<lambda>s. lockedFiles (uploadReport s)"])
       (rule upload_operation_locked)
  then show ?thesis
    using assms
    by (auto simp: uploadFileWithRetry_def retryUploadOperation_def Let_def split: sum.splits)
qed


lemma create_segment_success:
  assumes "create_segment h accessToken driveId delay segment v s = (Inr v1, s1)"
  shows "failedFolderCreations (uploadReport s1) = failedFolderCreations (uploadReport s) \<and>
         lockedFiles (uploadReport s1) = lockedFiles (uploadReport s)"
proof -
  obtain currentPath0 parentId folderMap where v: "v = (currentPath0, parentId, folderMap)"
    by (cases v)
  let ?cur = "next_path currentPath0 segment"
  let ?s0 = "s\<lparr>trace := trace s @ [Creating ?cur parentId folderMap]\<rparr>"
  show ?thesis
  proof (cases "map_of folderMap ?cur")
    case (Some cached)
    with assms v show ?thesis
      by (simp add: create_segment_def Let_def)
  next
    case None
    obtain r0 sa where f: "js_fetch h (children_url driveId parentId)
        (create_init accessToken segment) ?s0 = (r0, sa)"
      by (cases "js_fetch h (children_url driveId parentId) (create_init accessToken segment) ?s0")
    have a: "uploadReport sa = uploadReport s"
      using js_fetch_report [OF f] by simp
    let ?r = "graphFetchWithRetry h accessToken (existing_endpoint driveId parentId segment) None sa"
    have b: "failedFolderCreations (uploadReport (final ?r)) = failedFolderCreations (uploadReport sa)"
      using graphFetchWithRetry_only [of sa h accessToken "existing_endpoint driveId parentId segment" None]
      by (simp add: fetch_only_def)
    have "s1 = sa \<or> (s1 = sleep delay (final ?r) \<and> (\<exists>j. outcome ?r = Inr j))"
      using assms v None f
      by (auto simp: create_segment_def Let_def split: sum.splits if_splits option.splits list.splits)
    then show ?thesis
      using a b graphFetchWithRetry_locked [of h accessToken "existing_endpoint driveId parentId segment" None sa]
      by (auto simp: sleep_def)
  qed
qed

lemma walk_segments_success:
  "walk_segments h accessToken driveId delay segments v s = (Inr v1, s1) \<Longrightarrow>
     failedFolderCreations (uploadReport s1) = failedFolderCreations (uploadReport s) \<and>
     lockedFiles (uploadReport s1) = lockedFiles (uploadReport s)"
proof (induction segments arbitrary: v s)
  case Nil
  then show ?case by simp
next
  case (Cons segment segments)
  obtain r0 sa where c: "create_segment h accessToken driveId delay segment v s = (r0, sa)"
    by (cases "create_segment h accessToken driveId delay segment v s")
  show ?case
  proof (cases r0)
    case (Inl e)
    with Cons.prems c show ?thesis by simp
  next
    case (Inr v2)
    with Cons.prems c have "walk_segments h accessToken driveId delay segments v2 sa = (Inr v1, s1)"
      by simp
    from Cons.IH [OF this] create_segment_success [OF c [unfolded Inr]] show ?thesis by simp
  qed
qed

lemma create_folders_success:
  "create_folders h accessToken driveId folderId delay sourceFolders folderMap s = (Inr m, s1) \<Longrightarrow>
     failedFolderCreations (uploadReport s1) = failedFolderCreations (uploadReport s) \<and>
     lockedFiles (uploadReport s1) = lockedFiles (uploadReport s)"
proof (induction sourceFolders arbitrary: folderMap s)
  case Nil
  then show ?case by simp
next
  case (Cons folder sourceFolders)
  obtain r0 sa where w: "walk_segments h accessToken driveId delay
      (str_split CHR ''/'' (path folder)) (None, folderId, folderMap) s = (r0, sa)"
    by (cases "walk_segments h accessToken driveId delay
      (str_split CHR ''/'' (path folder)) (None, folderId, folderMap) s")
  show ?case
  proof (cases r0)
    case (Inl e)
    with Cons.prems w show ?thesis by simp
  next
    case (Inr v1)
    obtain c p m1 where v1: "v1 = (c, p, m1)" by (cases v1)
    with Inr Cons.prems w
    have "create_folders h accessToken driveId folderId delay sourceFolders m1 sa = (Inr m, s1)"
      by simp
    from Cons.IH [OF this] walk_segments_success [OF w [unfolded Inr]] show ?thesis by simp
  qed
qed

lemma createFoldersIfNecessary_success:
  assumes "createFoldersIfNecessary h accessToken driveId folderId sourceFolders delay s = (Inr u, s1)"
  shows "failedFolderCreations (uploadReport s1) = failedFolderCreations (uploadReport s) \<and>
         lockedFiles (uploadReport s1) = lockedFiles (uploadReport s)"
proof -
  obtain m where "create_folders h accessToken driveId folderId delay sourceFolders
      [([], folderId)] s = (Inr m, s1)"
    using assms by (auto simp: createFoldersIfNecessary_def split: prod.splits sum.splits)
  then show ?thesis by (rule create_folders_success)
qed

lemma uploadFiles_failures:
  "outputs (uploadFiles h accessToken driveId folderId sourceFiles delay s) = outputs s \<and>
   failedFolderCreations (uploadReport (uploadFiles h accessToken driveId folderId sourceFiles delay s))
     = failedFolderCreations (uploadReport s) \<and>
   failures (uploadReport s)
     \<le> failures (uploadReport (uploadFiles h accessToken driveId folderId sourceFiles delay s)) \<and>
   (lockedFiles (uploadReport (uploadFiles h accessToken driveId folderId sourceFiles delay s))
      = lockedFiles (uploadReport s) \<or>
    failures (uploadReport s)
      < failures (uploadReport (uploadFiles h accessToken driveId folderId sourceFiles delay s)))"
proof (induction sourceFiles arbitrary: s)
  case Nil
  then show ?case by simp
next
  case (Cons item sourceFiles)
  obtain success s1 where u: "uploadFileWithRetry h accessToken driveId folderId item s = (success, s1)"
    by (cases "uploadFileWithRetry h accessToken driveId folderId item s")
  from uploadFileWithRetry_only [OF u] have same:
    "outputs s1 = outputs s"
    "failedFolderCreations (uploadReport s1) = failedFolderCreations (uploadReport s)"
    "failures (uploadReport s1) = failures (uploadReport s)"
    by (simp_all add: fetch_only_def)
  note l = uploadFileWithRetry_locked [OF u]
  let ?s2 = "sleep delay (if success then record_upload item s1 else record_failure item s1)"
  have s2: "outputs ?s2 = outputs s"
    "failedFolderCreations (uploadReport ?s2) = failedFolderCreations (uploadReport s)"
    "failures (uploadReport ?s2) = failures (uploadReport s) + (if success then 0 else 1)"
    "lockedFiles (uploadReport ?s2) = lockedFiles (uploadReport s1)"
    using same by (simp_all add: sleep_def record_upload_def record_failure_def)
  from Cons.IH [of ?s2] s2 l u show ?case
    by (cases success) auto
qed

lemma populate_outputs:
  "outputs (snd (populateSourceStructure h srcFolder node isTopLevel s)) = outputs s"
  "outputs (snd (populate_entries h srcFolder entries s)) = outputs s"
  by (induction h srcFolder node isTopLevel s and h srcFolder entries s
      rule: populateSourceStructure_populate_entries.induct)
     (auto simp: Let_def push_folder_def push_file_def split: prod.splits sum.splits)


lemma uploadFiles_failedList:
  assumes "failures (uploadReport s) = length (failedList (uploadReport s))"
  shows "failures (uploadReport (uploadFiles h accessToken driveId folderId sourceFiles delay s)) =
         length (failedList (uploadReport (uploadFiles h accessToken driveId folderId sourceFiles delay s)))"
proof -
  from uploadFiles_outcomes [of sourceFiles h accessToken driveId folderId delay s]
  obtain oks where
     "failedList (uploadReport (uploadFiles h accessToken driveId folderId sourceFiles delay s)) =
       failedList (uploadReport s) @ map (path \<circ> fst) (filter (Not \<circ> snd) (zip sourceFiles oks))"
     "failures (uploadReport (uploadFiles h accessToken driveId folderId sourceFiles delay s)) =
       failures (uploadReport s) + length (filter (Not \<circ> snd) (zip sourceFiles oks))"
    by blast
  with assms show ?thesis by simp
qed

text \<open>How the \<^verbatim>\<open>try\<close> block of a run from the initial state can end.\<close>

lemma run_body_result:
  assumes "run_body h inp docs (initial_state w) = (r, s1)"
  shows "(\<exists>e. r = Inl e \<and> outputs s1 = []) \<or>
         (r = Inr () \<and> failedFolderCreations (uploadReport s1) = 0 \<and>
           ((outputs s1 = [] \<and> failures (uploadReport s1) = 0 \<and>
               lockedFiles (uploadReport s1) = 0) \<or>
            (\<exists>msg. outputs s1 = [(''error_message'', msg)] \<and> 0 < failures (uploadReport s1))))"
proof (cases docs)
  case None
  with assms show ?thesis
    by (auto simp: run_body_def Let_def initial_state_def)
next
  case (Some node)
  let ?s = "initial_state w :: 'a state"
  let ?docsDir = "zip_contents_path inp @ ''/docx''"
  obtain r1 sa where p: "populateSourceStructure h ?docsDir node True ?s = (r1, sa)"
    by (cases "populateSourceStructure h ?docsDir node True ?s")
  have sa: "uploadReport sa = uploadReport ?s" "outputs sa = []"
    using populate_report(1) [of h ?docsDir node True ?s]
      populate_outputs(1) [of h ?docsDir node True ?s] p
    by (simp_all add: initial_state_def)
  show ?thesis
  proof (cases r1)
    case (Inl e)
    with assms Some p sa show ?thesis
      by (auto simp: run_body_def Let_def)
  next
    case Inr1: (Inr u1)
    let ?folders = "map (\<lambda>folder. \<lparr>entry_name = entry_name folder,
                        path = str_replace (path folder) ?docsDir []\<rparr>) (folders (sourceStructure sa))"
    obtain r2 sb where c: "createFoldersIfNecessary h (access_token inp) (drive_id inp) (folder_id inp)
        ?folders (parseInt h (delay_input inp)) sa = (r2, sb)"
      by (cases "createFoldersIfNecessary h (access_token inp) (drive_id inp) (folder_id inp)
        ?folders (parseInt h (delay_input inp)) sa")
    note b = createFoldersIfNecessary_builder [OF c]
    show ?thesis
    proof (cases r2)
      case (Inl e)
      with assms Some p Inr1 c b sa show ?thesis
        by (auto simp: run_body_def Let_def builder_only_def)
    next
      case Inr2: (Inr u2)
      note q = createFoldersIfNecessary_success [OF c [unfolded Inr2]]
      have sb: "outputs sb = []" "failures (uploadReport sb) = 0" "failedList (uploadReport sb) = []"
        "failedFolderCreations (uploadReport sb) = 0" "lockedFiles (uploadReport sb) = 0"
        using b q sa by (simp_all add: builder_only_def initial_state_def)
      let ?files = "map (\<lambda>nextFile. \<lparr>entry_name = entry_name nextFile, path = path nextFile,
                       relative = str_replace (path nextFile) ?docsDir []\<rparr>) (files (sourceStructure sb))"
      let ?s3 = "uploadFiles h (access_token inp) (drive_id inp) (folder_id inp) ?files
                   (parseInt h (delay_input inp)) sb"
      note f = uploadFiles_failures [of h "access_token inp" "drive_id inp" "folder_id inp" ?files
          "parseInt h (delay_input inp)" sb]
      have len: "failures (uploadReport ?s3) = length (failedList (uploadReport ?s3))"
        by (rule uploadFiles_failedList) (simp add: sb)
      have r: "r = Inr ()"
        using assms Some p Inr1 c Inr2 by (simp add: run_body_def Let_def)
      show ?thesis
      proof (cases "0 < failures (uploadReport ?s3) \<or> failedList (uploadReport ?s3) \<noteq> []")
        case True
        then have pos: "0 < failures (uploadReport ?s3)" using len by auto
        have "s1 = setOutput ''error_message''
                (cross_mark @ '' Upload Error: Some uploads failed. ''
                   @ ''Check the workflow for more details.'') ?s3"
          using assms Some p Inr1 c Inr2 True by (simp add: run_body_def Let_def)
        then show ?thesis
          using r f sb pos by (simp add: setOutput_def)
      next
        case False
        have "s1 = ?s3"
          using assms Some p Inr1 c Inr2 False by (simp add: run_body_def Let_def)
        then show ?thesis
          using r f sb False by auto
      qed
    qed
  qed
qed

text \<open>
  C9, as amended. At the end of every run the outputs are, in this order: an error
  message, exactly when the run threw or counted a failed upload, a failed folder
  creation or a locked file; then the uploaded count, the list of uploaded relative
  paths, the failure count, the list of failed local paths and the count of locked
  files. The count of failed folder creations stays in the report and is not an output.
\<close>

theorem run_emits_report:
  "\<exists>errs.
     outputs (run h inp docs (initial_state w)) =
       errs @
       [(''upload_successes'', show_nat (uploads (uploadReport (run h inp docs (initial_state w))))),
        (''upload_list'', str_join '', '' (uploadList (uploadReport (run h inp docs (initial_state w))))),
        (''upload_failures'', show_nat (failures (uploadReport (run h inp docs (initial_state w))))),
        (''upload_failed_list'',
           str_join '', '' (failedList (uploadReport (run h inp docs (initial_state w))))),
        (''upload_failed_locked'',
           show_nat (lockedFiles (uploadReport (run h inp docs (initial_state w)))))] \<and>
     (errs = [] \<or> (\<exists>msg. errs = [(''error_message'', msg)])) \<and>
     ((errs = []) =
        (fst (run_body h inp docs (initial_state w)) = Inr () \<and>
         failures (uploadReport (run h inp docs (initial_state w))) = 0 \<and>
         failedFolderCreations (uploadReport (run h inp docs (initial_state w))) = 0 \<and>
         lockedFiles (uploadReport (run h inp docs (initial_state w))) = 0))"
proof -
  obtain r s1 where rb: "run_body h inp docs (initial_state w) = (r, s1)"
    by (cases "run_body h inp docs (initial_state w)")
  from run_body_result [OF rb] show ?thesis
  proof (elim disjE exE conjE)
    fix e assume "r = Inl e" "outputs s1 = []"
    then show ?thesis
      using rb
      by (intro exI [where x = "[(''error_message'', cross_mark @ '' Upload Error: '' @ message e)]"])
         (simp add: run_def emit_report_def setOutput_def)
  next
    assume "r = Inr ()" "failedFolderCreations (uploadReport s1) = 0" "outputs s1 = []"
      "failures (uploadReport s1) = 0" "lockedFiles (uploadReport s1) = 0"
    then show ?thesis
      using rb
      by (intro exI [where x = "[]"]) (simp add: run_def emit_report_def setOutput_def)
  next
    fix msg
    assume "r = Inr ()" "failedFolderCreations (uploadReport s1) = 0"
      "outputs s1 = [(''error_message'', msg)]" "0 < failures (uploadReport s1)"
    then show ?thesis
      using rb
      by (intro exI [where x = "[(''error_message'', msg)]"])
         (simp add: run_def emit_report_def setOutput_def)
  qed
qed

text \<open>The run in which the creation of the folder is answered 503.\<close>

lemma busy_run:
  "run_body example_host example_inputs (Some example_tree) (initial_state busy_script) =
     (Inl (Error ''Failed to create folder a. Upload is aborted.''),
      \<lparr>remote = [Inr (reply 201 None (Some (item ''A1'')))],
       uploadReport =
         \<lparr>uploads = 0, uploadList = [], failures = 0, failedList = [],
          failedFolderCreations = 1, lockedFiles = 0\<rparr>,
       sourceStructure =
         \<lparr>folders = [\<lparr>entry_name = ''a'', path = ''/tmp/docx/a''\<rparr>],
          files = [\<lparr>entry_name = ''one.txt'', path = ''/tmp/docx/a/one.txt''\<rparr>,
                   \<lparr>entry_name = ''two.txt'', path = ''/tmp/docx/a/two.txt''\<rparr>]\<rparr>,
       outputs = [],
       trace =
         [Creating ''a'' ''ROOT'' [([], ''ROOT'')],
          Fetch (children_url ''D'' ''ROOT'', create_init ''T'' ''a'')]\<rparr>)"
  by (simp add: run_body_def busy_script_def example_eval)

lemma busy_run_outputs:
  "outputs (run example_host example_inputs (Some example_tree) (initial_state busy_script)) =
     [(''error_message'',
         cross_mark @ '' Upload Error: Failed to create folder a. Upload is aborted.''),
      (''upload_successes'', ''0''), (''upload_list'', []), (''upload_failures'', ''0''),
      (''upload_failed_list'', []), (''upload_failed_locked'', ''0'')]"
  "failedFolderCreations (uploadReport
     (run example_host example_inputs (Some example_tree) (initial_state busy_script))) = 1"
  by (simp_all add: run_def busy_run emit_report_def setOutput_def Error_def show_nat.simps digit_def)

text \<open>
  C9 as stated fails: in the run whose folder creation is answered 503 the report counts
  one failed folder creation, and no output carries that count.
\<close>

theorem folder_failures_not_emitted_counterexample:
  "failedFolderCreations (uploadReport
     (run example_host example_inputs (Some example_tree) (initial_state busy_script))) = 1 \<and>
   outputs (run example_host example_inputs (Some example_tree) (initial_state busy_script)) =
     [(''error_message'',
         cross_mark @ '' Upload Error: Failed to create folder a. Upload is aborted.''),
      (''upload_successes'', ''0''), (''upload_list'', []), (''upload_failures'', ''0''),
      (''upload_failed_list'', []), (''upload_failed_locked'', ''0'')] \<and>
   show_nat (failedFolderCreations (uploadReport
       (run example_host example_inputs (Some example_tree) (initial_state busy_script))))
     \<notin> set (map snd (outputs
         (run example_host example_inputs (Some example_tree) (initial_state busy_script))))"
  by (simp add: busy_run_outputs) (simp add: show_nat.simps digit_def cross_mark_def)

text \<open>The outputs of the run with one uploaded and one locked file.\<close>

theorem run_emits_report_witness:
  "outputs (run example_host example_inputs (Some example_tree) (initial_state locked_script)) =
     [(''error_message'',
         cross_mark @ '' Upload Error: Some uploads failed. Check the workflow for more details.''),
      (''upload_successes'', ''1''), (''upload_list'', ''/a/one.txt''),
      (''upload_failures'', ''1''), (''upload_failed_list'', ''/tmp/docx/a/two.txt''),
      (''upload_failed_locked'', ''1'')]"
  using run_emits_report [of example_host example_inputs "Some example_tree" locked_script]
  by (simp add: run_def locked_run emit_report_def setOutput_def show_nat.simps digit_def)

section \<open>Which requests are retried\<close>

text \<open>The executor invokes the operation at most \<open>maxRetries + 1\<close> times.\<close>

lemma retry_loop_bounded:
  "invocations (retry_loop classify baseDelay exhausted operation maxRetries attempt lastError s)
     \<le> nat (maxRetries + 1 - int attempt)"
proof (induction classify baseDelay exhausted operation maxRetries attempt lastError s
    rule: retry_loop.induct)
  case (1 classify baseDelay exhausted operation maxRetries attempt lastError s)
  show ?case
  proof (cases "int attempt \<le> maxRetries")
    case False
    then show ?thesis by (subst retry_loop.simps) simp
  next
    case le: True
    obtain r s1 where op: "operation s = (r, s1)" by (cases "operation s")
    show ?thesis
    proof (cases r)
      case (Inr v)
      then show ?thesis using le op by (subst retry_loop.simps) simp
    next
      case (Inl e)
      obtain b d where cl: "classify attempt e = (b, d)" by (cases "classify attempt e")
      show ?thesis
      proof (cases "int attempt < maxRetries \<and> b")
        case True
        have "invocations (retry_loop classify baseDelay exhausted operation maxRetries
                  (Suc attempt) (Some e) s1) \<le> nat (maxRetries + 1 - int (Suc attempt))"
          using "1.IH" [OF le op [symmetric] Inl cl [symmetric] True] .
        then have "Suc (invocations (retry_loop classify baseDelay exhausted operation maxRetries
                  (Suc attempt) (Some e) s1)) \<le> nat (maxRetries + 1 - int attempt)"
          using True by (simp add: nat_le_iff) linarith
        then show ?thesis
          using le op Inl cl True by (subst retry_loop.simps) (simp add: Let_def)
      next
        case False
        then show ?thesis
          using le op Inl cl by (subst retry_loop.simps) auto
      qed
    qed
  qed
qed

lemma create_segment_rejected:
  assumes "map_of folderMap (next_path currentPath segment) = None"
    and "fetch h (children_url driveId parentId, create_init accessToken segment) (remote s)
           = (Inr res, w1)"
    and "\<not> ok res" and "status res \<noteq> 409"
  shows "create_segment h accessToken driveId delay segment (currentPath, parentId, folderMap) s =
           (Inl (Error (''Failed to create folder '' @ next_path currentPath segment
                   @ ''. Upload is aborted.'')),
            count_failed_folder
              (s\<lparr>remote := w1,
                 trace := trace s @
                   [Creating (next_path currentPath segment) parentId folderMap,
                    Fetch (children_url driveId parentId, create_init accessToken segment)]\<rparr>))"
  using assms by (simp add: create_segment_def Let_def js_fetch_def)

text \<open>
  C6, as amended. The folder-creation request does not pass through the executor: it is
  issued once, and a response that is neither a success nor 409 aborts the walk with
  the error of a failed creation and one more failed folder creation counted,
  whatever the status. The listing behind \<^verbatim>\<open>graphFetchWithRetry\<close> and the upload of a
  file do pass through the executor: after \<open>K\<close> retryable failures, \<open>K\<close> at most
  \<^verbatim>\<open>UPLOAD_MAX_RETRIES\<close>, a success is returned, and the operation is invoked at most
  \<^verbatim>\<open>UPLOAD_MAX_RETRIES + 1\<close> times.
\<close>

theorem folder_creation_once_others_retried:
  "(map_of folderMap (next_path currentPath segment) = None \<and>
    fetch h (children_url driveId parentId, create_init accessToken segment) (remote s)
      = (Inr res, w1) \<and> \<not> ok res \<and> status res \<noteq> 409 \<longrightarrow>
    create_segment h accessToken driveId delay segment (currentPath, parentId, folderMap) s =
      (Inl (Error (''Failed to create folder '' @ next_path currentPath segment
              @ ''. Upload is aborted.'')),
       count_failed_folder
         (s\<lparr>remote := w1,
            trace := trace s @
              [Creating (next_path currentPath segment) parentId folderMap,
               Fetch (children_url driveId parentId, create_init accessToken segment)]\<rparr>))) \<and>
   (int K \<le> UPLOAD_MAX_RETRIES h \<and>
    (\<forall>i<K. \<exists>e. thrown (graphFetch h token endpoint initOptions) s i = Some e \<and>
               fst (upload_classify h i e)) \<and>
    fst (graphFetch h token endpoint initOptions
           (state_after (graphFetch h token endpoint initOptions) s K)) = Inr j \<longrightarrow>
    outcome (graphFetchWithRetry h token endpoint initOptions s) = Inr j \<and>
    invocations (graphFetchWithRetry h token endpoint initOptions s) = K + 1) \<and>
   (int K \<le> UPLOAD_MAX_RETRIES h \<and>
    (\<forall>i<K. \<exists>e. thrown (upload_operation h accessToken driveId folderId file) s i = Some e \<and>
               fst (upload_classify h i e)) \<and>
    fst (upload_operation h accessToken driveId folderId file
           (state_after (upload_operation h accessToken driveId folderId file) s K)) = Inr () \<longrightarrow>
    fst (uploadFileWithRetry h accessToken driveId folderId file s)) \<and>
   invocations (graphFetchWithRetry h token endpoint initOptions s)
     \<le> nat (UPLOAD_MAX_RETRIES h + 1) \<and>
   invocations (retryUploadOperation h (upload_operation h accessToken driveId folderId file)
       (path file) (UPLOAD_MAX_RETRIES h) s) \<le> nat (UPLOAD_MAX_RETRIES h + 1)"
proof (intro conjI impI)
  assume "map_of folderMap (next_path currentPath segment) = None \<and>
    fetch h (children_url driveId parentId, create_init accessToken segment) (remote s)
      = (Inr res, w1) \<and> \<not> ok res \<and> status res \<noteq> 409"
  then show "create_segment h accessToken driveId delay segment (currentPath, parentId, folderMap) s =
      (Inl (Error (''Failed to create folder '' @ next_path currentPath segment
              @ ''. Upload is aborted.'')),
       count_failed_folder
         (s\<lparr>remote := w1,
            trace := trace s @
              [Creating (next_path currentPath segment) parentId folderMap,
               Fetch (children_url driveId parentId, create_init accessToken segment)]\<rparr>))"
    by (simp add: create_segment_rejected)
next
  assume a: "int K \<le> UPLOAD_MAX_RETRIES h \<and>
    (\<forall>i<K. \<exists>e. thrown (graphFetch h token endpoint initOptions) s i = Some e \<and>
               fst (upload_classify h i e)) \<and>
    fst (graphFetch h token endpoint initOptions
           (state_after (graphFetch h token endpoint initOptions) s K)) = Inr j"
  then have 1: "int (0 + K) \<le> UPLOAD_MAX_RETRIES h"
    and 2: "\<forall>i<K. \<exists>e. thrown (graphFetch h token endpoint initOptions) s i = Some e \<and>
               fst (upload_classify h (0 + i) e)"
    and 3: "fst (graphFetch h token endpoint initOptions
           (state_after (graphFetch h token endpoint initOptions) s K)) = Inr j"
    by simp_all
  show "outcome (graphFetchWithRetry h token endpoint initOptions s) = Inr j"
    unfolding graphFetchWithRetry_def retryUploadOperation_def
    by (subst retry_loop_recovers [OF 1 2 3]) simp
  show "invocations (graphFetchWithRetry h token endpoint initOptions s) = K + 1"
    unfolding graphFetchWithRetry_def retryUploadOperation_def
    by (subst retry_loop_recovers [OF 1 2 3]) simp
next
  let ?op = "upload_operation h accessToken driveId folderId file"
  assume a: "int K \<le> UPLOAD_MAX_RETRIES h \<and>
    (\<forall>i<K. \<exists>e. thrown ?op s i = Some e \<and> fst (upload_classify h i e)) \<and>
    fst (?op (state_after ?op s K)) = Inr ()"
  then have 1: "int (0 + K) \<le> UPLOAD_MAX_RETRIES h"
    and 2: "\<forall>i<K. \<exists>e. thrown ?op s i = Some e \<and> fst (upload_classify h (0 + i) e)"
    and 3: "fst (?op (state_after ?op s K)) = Inr ()"
    by simp_all
  show "fst (uploadFileWithRetry h accessToken driveId folderId file s)"
    unfolding uploadFileWithRetry_def retryUploadOperation_def
    by (simp add: Let_def retry_loop_recovers [OF 1 2 3])
next
  show "invocations (graphFetchWithRetry h token endpoint initOptions s)
     \<le> nat (UPLOAD_MAX_RETRIES h + 1)"
    unfolding graphFetchWithRetry_def retryUploadOperation_def
    using retry_loop_bounded [of "upload_classify h" _ _ _ "UPLOAD_MAX_RETRIES h" 0] by simp
  show "invocations (retryUploadOperation h (upload_operation h accessToken driveId folderId file)
       (path file) (UPLOAD_MAX_RETRIES h) s) \<le> nat (UPLOAD_MAX_RETRIES h + 1)"
    unfolding retryUploadOperation_def
    using retry_loop_bounded [of "upload_classify h" _ _ _ "UPLOAD_MAX_RETRIES h" 0] by simp
qed

lemma busy_builder:
  "createFoldersIfNecessary example_host ''T'' ''D'' ''ROOT''
      [\<lparr>entry_name = ''a'', path = ''/a''\<rparr>] (Finite 10) (initial_state busy_script) =
     (Inl (Error ''Failed to create folder a. Upload is aborted.''),
      \<lparr>remote = [Inr (reply 201 None (Some (item ''A1'')))],
       uploadReport =
         \<lparr>uploads = 0, uploadList = [], failures = 0, failedList = [],
          failedFolderCreations = 1, lockedFiles = 0\<rparr>,
       sourceStructure = \<lparr>folders = [], files = []\<rparr>,
       outputs = [],
       trace =
         [Creating ''a'' ''ROOT'' [([], ''ROOT'')],
          Fetch (children_url ''D'' ''ROOT'', create_init ''T'' ''a'')]\<rparr>)"
  by (simp add: busy_script_def example_eval)

lemma busy_through_executor:
  "retryUploadOperation example_host
      (graphFetch example_host ''T'' ''/drives/D/items/ROOT/children''
         (Some (create_init ''T'' ''a'')))
      ''/drives/D/items/ROOT/children'' 2 (initial_state busy_script) =
     \<lparr>outcome = Inr (item ''A1''), invocations = 2, waits = [Finite 1000],
      final =
        \<lparr>remote = [],
         uploadReport =
           \<lparr>uploads = 0, uploadList = [], failures = 0, failedList = [],
            failedFolderCreations = 0, lockedFiles = 0\<rparr>,
         sourceStructure = \<lparr>folders = [], files = []\<rparr>,
         outputs = [],
         trace =
           [Fetch (children_url ''D'' ''ROOT'', create_init ''T'' ''a''),
            Fetch (children_url ''D'' ''ROOT'', create_init ''T'' ''a'')]\<rparr>\<rparr>"
  by (simp add: busy_script_def example_eval children_url_def GRAPH_API_def waitTime_def
        getRetryAfterDelay_def)

text \<open>
  C6 as stated fails: with two retries allowed and 503 a retryable status, the builder
  answered 503 issues one request and aborts, where the same request through the
  executor is issued twice and succeeds.
\<close>

theorem folder_creation_not_retried_counterexample:
  "UPLOAD_MAX_RETRIES example_host = 2 \<and>
   fst (upload_classify example_host 0
          (GraphApiError ''Graph API error 503: '' (reply 503 None None))) \<and>
   fst (createFoldersIfNecessary example_host ''T'' ''D'' ''ROOT''
          [\<lparr>entry_name = ''a'', path = ''/a''\<rparr>] (Finite 10) (initial_state busy_script)) =
     Inl (Error ''Failed to create folder a. Upload is aborted.'') \<and>
   fetches (trace (snd (createFoldersIfNecessary example_host ''T'' ''D'' ''ROOT''
          [\<lparr>entry_name = ''a'', path = ''/a''\<rparr>] (Finite 10) (initial_state busy_script)))) =
     [(children_url ''D'' ''ROOT'', create_init ''T'' ''a'')] \<and>
   outcome (retryUploadOperation example_host
      (graphFetch example_host ''T'' ''/drives/D/items/ROOT/children''
         (Some (create_init ''T'' ''a'')))
      ''/drives/D/items/ROOT/children'' 2 (initial_state busy_script)) = Inr (item ''A1'') \<and>
   invocations (retryUploadOperation example_host
      (graphFetch example_host ''T'' ''/drives/D/items/ROOT/children''
         (Some (create_init ''T'' ''a'')))
      ''/drives/D/items/ROOT/children'' 2 (initial_state busy_script)) = 2"
  by (simp add: busy_builder busy_through_executor busy_upload example_host_simps)

text \<open>A creation answered 503, and a listing and an upload answered 503 and then 200.\<close>

theorem folder_creation_once_others_retried_witness:
  "fst (create_segment example_host ''T'' ''D'' (Finite 10) ''a''
          (Some [], ''ROOT'', [([], ''ROOT'')]) (initial_state busy_script)) =
     Inl (Error ''Failed to create folder a. Upload is aborted.'') \<and>
   outcome (graphFetchWithRetry example_host ''T'' ''/q'' None
      (initial_state [Inr (reply 503 None None), Inr (reply 200 None (Some (listing [''A1''])))]))
     = Inr (listing [''A1'']) \<and>
   invocations (graphFetchWithRetry example_host ''T'' ''/q'' None
      (initial_state [Inr (reply 503 None None), Inr (reply 200 None (Some (listing [''A1''])))]))
     = 2 \<and>
   fst (uploadFileWithRetry example_host ''T'' ''D'' ''ROOT'' one_txt
      (initial_state [Inr (reply 503 None None), Inr (reply 200 None (Some (item ''F1'')))]))"
proof -
  have a: "map_of [([], ''ROOT'')] (next_path (Some []) ''a'') = None \<and>
    fetch example_host (children_url ''D'' ''ROOT'', create_init ''T'' ''a'')
      (remote (initial_state busy_script)) =
      (Inr (reply 503 None None), [Inr (reply 201 None (Some (item ''A1'')))]) \<and>
    \<not> ok (reply 503 None None) \<and> status (reply 503 None None) \<noteq> 409"
    by (simp add: next_path_def example_host_simps scripted_def initial_state_def busy_script_def
          ok_def reply_def)
  have b: "int 1 \<le> UPLOAD_MAX_RETRIES example_host \<and>
    (\<forall>i<1. \<exists>e. thrown (graphFetch example_host ''T'' ''/q'' None)
        (initial_state [Inr (reply 503 None None), Inr (reply 200 None (Some (listing [''A1''])))]) i
        = Some e \<and> fst (upload_classify example_host i e)) \<and>
    fst (graphFetch example_host ''T'' ''/q'' None
      (state_after (graphFetch example_host ''T'' ''/q'' None)
        (initial_state [Inr (reply 503 None None), Inr (reply 200 None (Some (listing [''A1''])))])
        1)) = Inr (listing [''A1''])"
    by (simp add: thrown_def example_eval)
  have c: "int 1 \<le> UPLOAD_MAX_RETRIES example_host \<and>
    (\<forall>i<1. \<exists>e. thrown (upload_operation example_host ''T'' ''D'' ''ROOT'' one_txt)
        (initial_state [Inr (reply 503 None None), Inr (reply 200 None (Some (item ''F1'')))]) i
        = Some e \<and> fst (upload_classify example_host i e)) \<and>
    fst (upload_operation example_host ''T'' ''D'' ''ROOT'' one_txt
      (state_after (upload_operation example_host ''T'' ''D'' ''ROOT'' one_txt)
        (initial_state [Inr (reply 503 None None), Inr (reply 200 None (Some (item ''F1'')))])
        1)) = Inr ()"
    by (simp add: thrown_def example_eval one_txt_def)
  note t1 = folder_creation_once_others_retried [THEN conjunct1, rule_format, OF a]
  note t2 = folder_creation_once_others_retried
    [THEN conjunct2, THEN conjunct1, rule_format, OF b]
  note t3 = folder_creation_once_others_retried
    [THEN conjunct2, THEN conjunct2, THEN conjunct1, rule_format, OF c]
  show ?thesis
    using t1 t2 t3 by (simp add: next_path_def)
qed

section \<open>The conflict on folder creation\<close>

lemma update_fresh: "map_of m k = None \<Longrightarrow> AList.update k v m = m @ [(k, v)]"
  by (induction m) (auto split: if_splits)

lemma graphFetchWithRetry_requests:
  "fetch_only {(GRAPH_API @ endpoint, case initOptions of Some i \<Rightarrow> i | None \<Rightarrow> default_init token)}
     s (final (graphFetchWithRetry h token endpoint initOptions s))"
  unfolding graphFetchWithRetry_def
  by (rule retry_fetch_only) (erule graphFetch_only, simp)

text \<open>What the body of the segment loop does when the creation is answered 409.\<close>

lemma create_segment_conflict:
  assumes "map_of folderMap (next_path currentPath segment) = None"
    and "fetch h (children_url driveId parentId, create_init accessToken segment) (remote s)
           = (Inr res, w1)"
    and "status res = 409"
  shows "create_segment h accessToken driveId delay segment (currentPath, parentId, folderMap) s =
    (let p = next_path currentPath segment;
         r = graphFetchWithRetry h accessToken (existing_endpoint driveId parentId segment) None
               (s\<lparr>remote := w1,
                  trace := trace s @
                    [Creating p parentId folderMap,
                     Fetch (children_url driveId parentId, create_init accessToken segment)]\<rparr>)
     in case outcome r of
          Inl e \<Rightarrow> (Inl e, final r)
        | Inr existing \<Rightarrow>
            (case value_of existing of
               None \<Rightarrow>
                 (Inl (Error (''Failed to get data for existing folder '' @ p
                         @ ''. Upload is aborted.'')), final r)
             | Some [] \<Rightarrow>
                 (Inl (Error (''Failed to get data for existing folder '' @ p
                         @ ''. Upload is aborted.'')), final r)
             | Some [ident] \<Rightarrow>
                 (Inr (Some p, ident, folderMap @ [(p, ident)]), sleep delay (final r))
             | Some (ident # second # others) \<Rightarrow>
                 (Inl (Error (''Found multiple existing folders for '' @ p
                         @ ''. Upload is aborted.'')), final r)))"
  using assms
  by (simp add: create_segment_def Let_def js_fetch_def ok_def update_fresh
      split: sum.splits option.splits list.splits)

text \<open>
  C2. When the creation request for a prefix not in the folder map is answered 409, the
  builder lists the children of the parent filtered by the name of the segment, through
  \<^verbatim>\<open>graphFetchWithRetry\<close>, and issues no other request. When the listing returns exactly
  one item, its id is stored in the folder map under the prefix and becomes the parent
  id, the builder sleeps the delay and the walk goes on with the remaining segments.
  When the listing has no \<^verbatim>\<open>value\<close> or returns no item, or returns more than one item,
  the walk throws, and the error leaves \<^verbatim>\<open>createFoldersIfNecessary\<close> before any other
  folder is looked at.
\<close>

theorem conflict_resolved_by_listing:
  assumes "map_of folderMap (next_path currentPath segment) = None"
    and "fetch h (children_url driveId parentId, create_init accessToken segment) (remote s)
           = (Inr res, w1)"
    and "status res = 409"
  shows
    "let p = next_path currentPath segment;
         r = graphFetchWithRetry h accessToken (existing_endpoint driveId parentId segment) None
               (s\<lparr>remote := w1,
                  trace := trace s @
                    [Creating p parentId folderMap,
                     Fetch (children_url driveId parentId, create_init accessToken segment)]\<rparr>)
     in
       (\<exists>reqs. fetches (trace (final r)) =
                 fetches (trace s)
                   @ [(children_url driveId parentId, create_init accessToken segment)] @ reqs \<and>
               set reqs \<subseteq>
                 {(GRAPH_API @ ''/drives/'' @ driveId @ ''/items/'' @ parentId
                     @ ''/children?$filter=name eq '' @ apostrophe @ segment @ apostrophe,
                   default_init accessToken)}) \<and>
       (\<forall>existing ident. outcome r = Inr existing \<and> value_of existing = Some [ident] \<longrightarrow>
          walk_segments h accessToken driveId delay (segment # segments)
              (currentPath, parentId, folderMap) s =
            walk_segments h accessToken driveId delay segments
              (Some p, ident, folderMap @ [(p, ident)]) (sleep delay (final r))) \<and>
       (\<forall>existing. outcome r = Inr existing \<and>
            (value_of existing = None \<or> value_of existing = Some []) \<longrightarrow>
          walk_segments h accessToken driveId delay (segment # segments)
              (currentPath, parentId, folderMap) s =
            (Inl (Error (''Failed to get data for existing folder '' @ p
                    @ ''. Upload is aborted.'')), final r)) \<and>
       (\<forall>existing idents. outcome r = Inr existing \<and> value_of existing = Some idents \<and>
            1 < length idents \<longrightarrow>
          walk_segments h accessToken driveId delay (segment # segments)
              (currentPath, parentId, folderMap) s =
            (Inl (Error (''Found multiple existing folders for '' @ p
                    @ ''. Upload is aborted.'')), final r)) \<and>
       (\<forall>e s1 folder sourceFolders folderId m s0.
          walk_segments h accessToken driveId delay (str_split CHR ''/'' (path folder))
              (None, folderId, m) s0 = (Inl e, s1) \<longrightarrow>
          create_folders h accessToken driveId folderId delay (folder # sourceFolders) m s0
            = (Inl e, s1))"
proof -
  define p where "p = next_path currentPath segment"
  define s1 where "s1 = s\<lparr>remote := w1,
                  trace := trace s @
                    [Creating p parentId folderMap,
                     Fetch (children_url driveId parentId, create_init accessToken segment)]\<rparr>"
  define r where "r = graphFetchWithRetry h accessToken
      (existing_endpoint driveId parentId segment) None s1"
  note c = create_segment_conflict [OF assms, of delay, folded p_def, unfolded Let_def,
      folded s1_def, folded r_def]
  have 1: "\<exists>reqs. fetches (trace (final r)) =
                 fetches (trace s)
                   @ [(children_url driveId parentId, create_init accessToken segment)] @ reqs \<and>
               set reqs \<subseteq>
                 {(GRAPH_API @ ''/drives/'' @ driveId @ ''/items/'' @ parentId
                     @ ''/children?$filter=name eq '' @ apostrophe @ segment @ apostrophe,
                   default_init accessToken)}"
  proof -
    from graphFetchWithRetry_requests [where endpoint = "existing_endpoint driveId parentId segment"
        and initOptions = None and token = accessToken and s = s1 and h = h]
    obtain reqs where reqs: "trace (final r) = trace s1 @ map Fetch reqs"
       "set reqs \<subseteq> {(GRAPH_API @ existing_endpoint driveId parentId segment,
                        default_init accessToken)}"
      by (auto simp: fetch_only_def r_def)
    have "fetches (trace (final r)) =
            fetches (trace s)
              @ [(children_url driveId parentId, create_init accessToken segment)] @ reqs"
      using reqs(1) by (simp add: s1_def fetches_append fetches_map_Fetch)
    with reqs(2) show ?thesis
      by (auto simp: existing_endpoint_def)
  qed
  have 2: "\<forall>existing ident. outcome r = Inr existing \<and> value_of existing = Some [ident] \<longrightarrow>
          walk_segments h accessToken driveId delay (segment # segments)
              (currentPath, parentId, folderMap) s =
            walk_segments h accessToken driveId delay segments
              (Some p, ident, folderMap @ [(p, ident)]) (sleep delay (final r))"
    by (simp add: c)
  have 3: "\<forall>existing. outcome r = Inr existing \<and>
            (value_of existing = None \<or> value_of existing = Some []) \<longrightarrow>
          walk_segments h accessToken driveId delay (segment # segments)
              (currentPath, parentId, folderMap) s =
            (Inl (Error (''Failed to get data for existing folder '' @ p
                    @ ''. Upload is aborted.'')), final r)"
    by (auto simp: c)
  have 4: "\<forall>existing idents. outcome r = Inr existing \<and> value_of existing = Some idents \<and>
            1 < length idents \<longrightarrow>
          walk_segments h accessToken driveId delay (segment # segments)
              (currentPath, parentId, folderMap) s =
            (Inl (Error (''Found multiple existing folders for '' @ p
                    @ ''. Upload is aborted.'')), final r)"
    by (auto simp: c split: list.splits)
  have 5: "\<forall>e s1 folder sourceFolders folderId m s0.
          walk_segments h accessToken driveId delay (str_split CHR ''/'' (path folder))
              (None, folderId, m) s0 = (Inl e, s1) \<longrightarrow>
          create_folders h accessToken driveId folderId delay (folder # sourceFolders) m s0
            = (Inl e, s1)"
    by simp
  show ?thesis
    unfolding Let_def
    using 1 2 3 4 5 unfolding r_def s1_def p_def by blast
qed

text \<open>The folder \<open>a\<close> exists already: one match is adopted, none or two abort.\<close>

theorem conflict_resolved_by_listing_witness:
  "walk_segments example_host ''T'' ''D'' (Finite 10) [''a''] (Some [], ''ROOT'', [([], ''ROOT'')])
      (initial_state conflict_script) =
     (Inr (Some ''a'', ''A1'', [([], ''ROOT''), (''a'', ''A1'')]),
      \<lparr>remote = [],
       uploadReport =
         \<lparr>uploads = 0, uploadList = [], failures = 0, failedList = [],
          failedFolderCreations = 0, lockedFiles = 0\<rparr>,
       sourceStructure = \<lparr>folders = [], files = []\<rparr>,
       outputs = [],
       trace =
         [Creating ''a'' ''ROOT'' [([], ''ROOT'')],
          Fetch (children_url ''D'' ''ROOT'', create_init ''T'' ''a''),
          Fetch (GRAPH_API @ existing_endpoint ''D'' ''ROOT'' ''a'', default_init ''T''),
          Sleep (Finite 10)]\<rparr>) \<and>
   fst (walk_segments example_host ''T'' ''D'' (Finite 10) [''a''] (Some [], ''ROOT'', [([], ''ROOT'')])
      (initial_state [Inr (reply 409 None None), Inr (reply 200 None (Some (listing [])))])) =
     Inl (Error ''Failed to get data for existing folder a. Upload is aborted.'') \<and>
   fst (walk_segments example_host ''T'' ''D'' (Finite 10) [''a''] (Some [], ''ROOT'', [([], ''ROOT'')])
      (initial_state [Inr (reply 409 None None),
                      Inr (reply 200 None (Some (listing [''A1'', ''A2''])))])) =
     Inl (Error ''Found multiple existing folders for a. Upload is aborted.'')"
proof -
  have a: "map_of [([], ''ROOT'')] (next_path (Some []) ''a'') = None"
    by (simp add: next_path_def)
  have b: "status (reply 409 None None) = 409"
    by (simp add: reply_def)
  have f1: "fetch example_host (children_url ''D'' ''ROOT'', create_init ''T'' ''a'')
      (remote (initial_state conflict_script)) =
      (Inr (reply 409 None None), [Inr (reply 200 None (Some (listing [''A1''])))])"
    by (simp add: example_host_simps scripted_def initial_state_def conflict_script_def)
  have f2: "fetch example_host (children_url ''D'' ''ROOT'', create_init ''T'' ''a'')
      (remote (initial_state [Inr (reply 409 None None),
                              Inr (reply 200 None (Some (listing [])))])) =
      (Inr (reply 409 None None), [Inr (reply 200 None (Some (listing [])))])"
    by (simp add: example_host_simps scripted_def initial_state_def)
  have f3: "fetch example_host (children_url ''D'' ''ROOT'', create_init ''T'' ''a'')
      (remote (initial_state [Inr (reply 409 None None),
                              Inr (reply 200 None (Some (listing [''A1'', ''A2''])))])) =
      (Inr (reply 409 None None), [Inr (reply 200 None (Some (listing [''A1'', ''A2''])))])"
    by (simp add: example_host_simps scripted_def initial_state_def)
  note t1 = conflict_resolved_by_listing [OF a f1 b, of "Finite 10" "[]", unfolded Let_def,
      THEN conjunct2, THEN conjunct1, rule_format, of "listing [''A1'']" "''A1''"]
  note t2 = conflict_resolved_by_listing [OF a f2 b, of "Finite 10" "[]", unfolded Let_def,
      THEN conjunct2, THEN conjunct2, THEN conjunct1, rule_format, of "listing []"]
  note t3 = conflict_resolved_by_listing [OF a f3 b, of "Finite 10" "[]", unfolded Let_def,
      THEN conjunct2, THEN conjunct2, THEN conjunct2, THEN conjunct1, rule_format,
      of "listing [''A1'', ''A2'']" "[''A1'', ''A2'']"]
  show ?thesis
    using t1 t2 t3
    by (simp add: example_eval conflict_script_def existing_endpoint_def GRAPH_API_def
          default_init_def Error_def apostrophe_def)
qed

section \<open>Ancestors before descendants, and one creation per path\<close>

text \<open>No segment of a split path contains the separator.\<close>

lemma str_split_no_sep: "w \<in> set (str_split sep str) \<Longrightarrow> sep \<notin> set w"
proof (induction str arbitrary: w)
  case Nil
  then show ?case by simp
next
  case (Cons c cs)
  show ?case
  proof (cases "c = sep")
    case True
    with Cons show ?thesis by auto
  next
    case False
    show ?thesis
    proof (cases "str_split sep cs")
      case Nil
      with Cons.prems False show ?thesis by simp
    next
      case (Cons w1 ws)
      then have "sep \<notin> set w1" "\<forall>x \<in> set ws. sep \<notin> set x"
        using Cons.IH by simp_all
      with Cons.prems False Cons show ?thesis by auto
    qed
  qed
qed

lemma parent_path_Nil [simp]: "parent_path [] = []"
  by (simp add: parent_path_def)

lemma dropWhile_all: "\<forall>x \<in> set xs. P x \<Longrightarrow> dropWhile P xs = []"
  by (induction xs) auto

lemma parent_path_next:
  assumes "CHR ''/'' \<notin> set segment"
  shows "parent_path (next_path currentPath segment) =
           (case currentPath of None \<Rightarrow> [] | Some c \<Rightarrow> c)"
proof -
  have dw: "dropWhile (\<lambda>c. c \<noteq> CHR ''/'') (rev segment) = []"
    by (rule dropWhile_all) (use assms in auto)
  have seg: "parent_path segment = []"
    unfolding parent_path_def dw by simp
  have "parent_path (c @ ''/'' @ segment) = c" for c
  proof -
    have "dropWhile (\<lambda>c. c \<noteq> CHR ''/'') (rev segment @ CHR ''/'' # rev c) =
            dropWhile (\<lambda>c. c \<noteq> CHR ''/'') (CHR ''/'' # rev c)"
      by (rule dropWhile_append2) (use assms in auto)
    then show ?thesis
      unfolding parent_path_def by simp
  qed
  with seg show ?thesis
    by (auto simp: next_path_def split: option.splits)
qed

lemma last_segment_next:
  assumes "CHR ''/'' \<notin> set segment"
  shows "last_segment (next_path currentPath segment) = segment"
proof -
  have tw: "takeWhile (\<lambda>c. c \<noteq> CHR ''/'') (rev segment) = rev segment"
    unfolding takeWhile_eq_all_conv using assms by auto
  have seg: "last_segment segment = segment"
    unfolding last_segment_def tw by simp
  have "last_segment (c @ ''/'' @ segment) = segment" for c
  proof -
    have "takeWhile (\<lambda>c. c \<noteq> CHR ''/'') (rev segment @ CHR ''/'' # rev c) =
            rev segment @ takeWhile (\<lambda>c. c \<noteq> CHR ''/'') (CHR ''/'' # rev c)"
      by (rule takeWhile_append2) (use assms in auto)
    then show ?thesis
      unfolding last_segment_def by simp
  qed
  with seg show ?thesis
    by (auto simp: next_path_def split: option.splits)
qed

lemma ancestors_cached:
  assumes "parent_path ` dom (map_of m) \<subseteq> dom (map_of m)"
  shows "parent_path p \<in> dom (map_of m) \<Longrightarrow> set (ancestors p) \<subseteq> dom (map_of m)"
proof (induction p rule: ancestors.induct)
  case (1 p)
  show ?case
  proof (cases "p = []")
    case True
    then show ?thesis by (simp add: ancestors.simps)
  next
    case False
    have "parent_path (parent_path p) \<in> dom (map_of m)"
      using assms "1.prems" by blast
    from "1.IH" [OF False this] "1.prems" False show ?thesis
      by (subst ancestors.simps) simp
  qed
qed

lemma map_invar_update:
  assumes "map_invar rootId m" "map_of m p = None" "parent_path p \<in> dom (map_of m)"
  shows "map_invar rootId (AList.update p v m)"
proof -
  have "p \<noteq> []" using assms(1,2) by (auto simp: map_invar_def)
  then show ?thesis
    using assms by (auto simp: map_invar_def update_conv')
qed

lemma creations_append: "creations (xs @ ys) = creations xs @ creations ys"
  by (induction xs rule: creations.induct) simp_all

lemma creations_map_Fetch: "creations (map Fetch reqs) = []"
  by (induction reqs) simp_all

lemma posts_append: "posts (xs @ ys) = posts xs @ posts ys"
  by (simp add: posts_def fetches_append)

lemma orderly_Nil: "orderly rootId accessToken driveId K []"
  by (simp add: orderly_def posts_def)

lemma orderly_append:
  assumes "orderly rootId accessToken driveId K evs1"
    and "orderly rootId accessToken driveId K1 evs2"
    and "K \<subseteq> K1" and "fst ` set (creations evs1) \<subseteq> K1"
  shows "orderly rootId accessToken driveId K (evs1 @ evs2)"
  unfolding orderly_def
proof (intro conjI)
  have apart: "fst ` set (creations evs1) \<inter> fst ` set (creations evs2) = {}"
    using assms(2,4) unfolding orderly_def by blast
  have fresh2: "fst ` set (creations evs2) \<inter> K = {}"
    using assms(2,3) unfolding orderly_def by blast
  have fresh1: "fst ` set (creations evs1) \<inter> K = {}"
    using assms(1) unfolding orderly_def by blast
  show "posts (evs1 @ evs2) = map (create_request accessToken driveId) (creations (evs1 @ evs2))"
    using assms(1,2) by (simp add: orderly_def posts_append creations_append)
  show "distinct (map fst (creations (evs1 @ evs2)))"
    using assms(1,2) apart by (simp add: orderly_def creations_append)
  show "fst ` set (creations (evs1 @ evs2)) \<inter> K = {}"
    using fresh1 fresh2 by (simp add: creations_append image_Un Int_Un_distrib2)
  show "list_all (well_placed rootId) (creations (evs1 @ evs2))"
    using assms(1,2) by (simp add: orderly_def creations_append)
qed

lemma listing_no_posts:
  assumes "set reqs \<subseteq> {(u, default_init token)}"
  shows "posts (map Fetch reqs) = []" "posts (map Fetch reqs @ [Sleep ms]) = []"
proof -
  have "filter (\<lambda>req. http_method (snd req) = ''POST'') reqs = []"
    using assms by (auto simp: filter_empty_conv default_init_def)
  then show "posts (map Fetch reqs) = []" "posts (map Fetch reqs @ [Sleep ms]) = []"
    by (simp_all add: posts_def fetches_append fetches_map_Fetch)
qed

text \<open>What the body of the segment loop adds to the trace for a path that is not cached:
  the announcement, the creation request, and after them no other creation.\<close>

lemma create_segment_tail:
  assumes "map_of folderMap (next_path currentPath segment) = None"
    and "create_segment h accessToken driveId delay segment (currentPath, parentId, folderMap) s
           = (r, s1)"
  shows "\<exists>tail. trace s1 =
             trace s @ [Creating (next_path currentPath segment) parentId folderMap,
                        Fetch (children_url driveId parentId, create_init accessToken segment)]
               @ tail \<and>
           creations tail = [] \<and> posts tail = [] \<and>
           (\<forall>v1. r = Inr v1 \<longrightarrow>
              (\<exists>ident. v1 = (Some (next_path currentPath segment), ident,
                              AList.update (next_path currentPath segment) ident folderMap)))"
proof -
  let ?p = "next_path currentPath segment"
  let ?s0 = "s\<lparr>trace := trace s @ [Creating ?p parentId folderMap]\<rparr>"
  obtain r0 sa where f: "js_fetch h (children_url driveId parentId)
      (create_init accessToken segment) ?s0 = (r0, sa)"
    by (cases "js_fetch h (children_url driveId parentId) (create_init accessToken segment) ?s0")
  have sa: "trace sa = trace s @ [Creating ?p parentId folderMap,
                        Fetch (children_url driveId parentId, create_init accessToken segment)]"
    using f by (auto simp: js_fetch_def split: prod.splits)
  let ?R = "graphFetchWithRetry h accessToken (existing_endpoint driveId parentId segment) None sa"
  from graphFetchWithRetry_requests [where endpoint = "existing_endpoint driveId parentId segment"
        and initOptions = None and token = accessToken and s = sa and h = h]
  obtain reqs where reqs: "trace (final ?R) = trace sa @ map Fetch reqs"
     "set reqs \<subseteq> {(GRAPH_API @ existing_endpoint driveId parentId segment,
                      default_init accessToken)}"
    by (auto simp: fetch_only_def)
  note np = listing_no_posts [OF reqs(2)]
  have shape: "\<forall>v1. r = Inr v1 \<longrightarrow>
              (\<exists>ident. v1 = (Some ?p, ident, AList.update ?p ident folderMap))"
    using assms f
    by (auto simp: create_segment_def Let_def split: sum.splits if_splits option.splits list.splits)
  have "s1 = sa \<or> s1 = count_failed_folder sa \<or> s1 = final ?R \<or> s1 = sleep delay (final ?R)"
    using assms f
    by (auto simp: create_segment_def Let_def split: sum.splits if_splits option.splits list.splits)
  then have "trace s1 = trace sa @ [] \<or> trace s1 = trace sa @ map Fetch reqs \<or>
             trace s1 = trace sa @ (map Fetch reqs @ [Sleep delay])"
    using reqs(1) by (auto simp: count_failed_folder_def sleep_def)
  then have "\<exists>tail. trace s1 = trace sa @ tail \<and> creations tail = [] \<and> posts tail = []"
    using np by (elim disjE)
      (rule exI [where x = "[]"], simp add: posts_def,
       rule exI [where x = "map Fetch reqs"], simp add: creations_map_Fetch,
       rule exI [where x = "map Fetch reqs @ [Sleep delay]"],
       simp add: creations_append creations_map_Fetch)
  with sa shape show ?thesis by auto
qed

text \<open>The body of the segment loop keeps the invariant of the walk and adds orderly
  events; so do the walk over the segments of a folder and the loop over the folders.\<close>

lemma create_segment_orderly:
  assumes inv: "walk_invar rootId (currentPath, parentId, folderMap)"
    and seg: "CHR ''/'' \<notin> set segment"
    and c: "create_segment h accessToken driveId delay segment (currentPath, parentId, folderMap) s
              = (r, s1)"
  shows "\<exists>evs. trace s1 = trace s @ evs \<and>
           orderly rootId accessToken driveId (dom (map_of folderMap)) evs \<and>
           (\<forall>c1 p1 m1. r = Inr (c1, p1, m1) \<longrightarrow>
              walk_invar rootId (c1, p1, m1) \<and> dom (map_of folderMap) \<subseteq> dom (map_of m1) \<and>
              fst ` set (creations evs) \<subseteq> dom (map_of m1))"
proof -
  let ?p = "next_path currentPath segment"
  from inv have mi: "map_invar rootId folderMap"
    and par: "map_of folderMap (case currentPath of None \<Rightarrow> [] | Some c \<Rightarrow> c) = Some parentId"
    by (simp_all add: walk_invar_def)
  show ?thesis
  proof (cases "map_of folderMap ?p")
    case (Some cached)
    with c have "s1 = s" "r = Inr (Some ?p, cached, folderMap)"
      by (simp_all add: create_segment_def Let_def)
    moreover have "walk_invar rootId (Some ?p, cached, folderMap)"
      using mi Some by (simp add: walk_invar_def)
    ultimately show ?thesis
      by (intro exI [where x = "[]"]) (simp add: orderly_Nil)
  next
    case None
    from create_segment_tail [OF None c] obtain tail where tail:
      "trace s1 = trace s @ [Creating ?p parentId folderMap,
                        Fetch (children_url driveId parentId, create_init accessToken segment)]
               @ tail"
      "creations tail = []" "posts tail = []"
      "\<forall>v1. r = Inr v1 \<longrightarrow>
              (\<exists>ident. v1 = (Some ?p, ident, AList.update ?p ident folderMap))"
      by blast
    let ?evs = "[Creating ?p parentId folderMap,
                 Fetch (children_url driveId parentId, create_init accessToken segment)] @ tail"
    have pp: "map_of folderMap (parent_path ?p) = Some parentId"
      using par by (simp add: parent_path_next [OF seg])
    then have anc: "set (ancestors ?p) \<subseteq> dom (map_of folderMap)"
      using mi by (intro ancestors_cached) (auto simp: map_invar_def)
    have wp: "well_placed rootId (?p, parentId, folderMap)"
      using mi None pp anc by (simp add: well_placed_def map_invar_def)
    have cr: "creations ?evs = [(?p, parentId, folderMap)]"
      using tail(2) by simp
    have po: "posts ?evs = [(children_url driveId parentId, create_init accessToken segment)]"
      using tail(3) posts_append [of "[Creating ?p parentId folderMap,
                 Fetch (children_url driveId parentId, create_init accessToken segment)]" tail]
      by (simp add: posts_def create_init_def)
    have ord: "orderly rootId accessToken driveId (dom (map_of folderMap)) ?evs"
      unfolding orderly_def cr po
      using wp None by (simp add: create_request_def last_segment_next [OF seg] domIff)
    have after: "walk_invar rootId (Some ?p, ident, AList.update ?p ident folderMap) \<and>
        dom (map_of folderMap) \<subseteq> dom (map_of (AList.update ?p ident folderMap)) \<and>
        ?p \<in> dom (map_of (AList.update ?p ident folderMap))" for ident
      using map_invar_update [OF mi None, of ident] pp
      by (auto simp: walk_invar_def update_conv')
    have "\<forall>c1 p1 m1. r = Inr (c1, p1, m1) \<longrightarrow>
              walk_invar rootId (c1, p1, m1) \<and> dom (map_of folderMap) \<subseteq> dom (map_of m1) \<and>
              fst ` set (creations ?evs) \<subseteq> dom (map_of m1)"
    proof (intro allI impI)
      fix c1 p1 m1 assume "r = Inr (c1, p1, m1)"
      with tail(4) obtain ident where
        "(c1, p1, m1) = (Some ?p, ident, AList.update ?p ident folderMap)" by blast
      then have eq: "c1 = Some ?p" "p1 = ident" "m1 = AList.update ?p ident folderMap"
        by simp_all
      show "walk_invar rootId (c1, p1, m1) \<and> dom (map_of folderMap) \<subseteq> dom (map_of m1) \<and>
              fst ` set (creations ?evs) \<subseteq> dom (map_of m1)"
        unfolding cr eq using after [of ident] by simp
    qed
    with tail(1) ord show ?thesis
      by (intro exI [where x = ?evs]) simp
  qed
qed

lemma walk_segments_orderly:
  assumes "walk_invar rootId (currentPath, parentId, folderMap)"
    and "\<forall>segment \<in> set segments. CHR ''/'' \<notin> set segment"
    and "walk_segments h accessToken driveId delay segments (currentPath, parentId, folderMap) s
           = (r, s1)"
  shows "\<exists>evs. trace s1 = trace s @ evs \<and>
           orderly rootId accessToken driveId (dom (map_of folderMap)) evs \<and>
           (\<forall>c1 p1 m1. r = Inr (c1, p1, m1) \<longrightarrow>
              walk_invar rootId (c1, p1, m1) \<and> dom (map_of folderMap) \<subseteq> dom (map_of m1) \<and>
              fst ` set (creations evs) \<subseteq> dom (map_of m1))"
  using assms
proof (induction segments arbitrary: currentPath parentId folderMap s)
  case Nil
  from Nil.prems(3) have "r = Inr (currentPath, parentId, folderMap)" "s1 = s" by simp_all
  with Nil.prems(1) show ?case
    by (intro exI [where x = "[]"]) (simp add: orderly_Nil)
next
  case (Cons segment segments)
  obtain r0 sa where c: "create_segment h accessToken driveId delay segment
      (currentPath, parentId, folderMap) s = (r0, sa)"
    by (cases "create_segment h accessToken driveId delay segment
      (currentPath, parentId, folderMap) s")
  have seg: "CHR ''/'' \<notin> set segment" using Cons.prems(2) by simp
  from create_segment_orderly [OF Cons.prems(1) seg c] obtain evs1 where e1:
    "trace sa = trace s @ evs1 \<and>
     orderly rootId accessToken driveId (dom (map_of folderMap)) evs1 \<and>
     (\<forall>c1 p1 m1. r0 = Inr (c1, p1, m1) \<longrightarrow>
              walk_invar rootId (c1, p1, m1) \<and> dom (map_of folderMap) \<subseteq> dom (map_of m1) \<and>
              fst ` set (creations evs1) \<subseteq> dom (map_of m1))" ..
  note evs1 = e1 [THEN conjunct1] e1 [THEN conjunct2, THEN conjunct1]
    e1 [THEN conjunct2, THEN conjunct2]
  show ?case
  proof (cases r0)
    case (Inl e)
    with Cons.prems(3) c have "r = Inl e" "s1 = sa" by simp_all
    with evs1(1,2) show ?thesis
      by (intro exI [where x = evs1]) simp
  next
    case (Inr v1)
    obtain c1 p1 m1 where v1: "v1 = (c1, p1, m1)" by (cases v1)
    from evs1(3) Inr v1 have inv1: "walk_invar rootId (c1, p1, m1)"
      and sub: "dom (map_of folderMap) \<subseteq> dom (map_of m1)"
      and cre: "fst ` set (creations evs1) \<subseteq> dom (map_of m1)"
      by simp_all
    have w: "walk_segments h accessToken driveId delay segments (c1, p1, m1) sa = (r, s1)"
      using Cons.prems(3) c Inr v1 by simp
    have segs: "\<forall>segment \<in> set segments. CHR ''/'' \<notin> set segment"
      using Cons.prems(2) by simp
    from Cons.IH [OF inv1 segs w] obtain evs2 where e2:
      "trace s1 = trace sa @ evs2 \<and>
       orderly rootId accessToken driveId (dom (map_of m1)) evs2 \<and>
       (\<forall>c2 p2 m2. r = Inr (c2, p2, m2) \<longrightarrow>
              walk_invar rootId (c2, p2, m2) \<and> dom (map_of m1) \<subseteq> dom (map_of m2) \<and>
              fst ` set (creations evs2) \<subseteq> dom (map_of m2))" ..
    note evs2 = e2 [THEN conjunct1] e2 [THEN conjunct2, THEN conjunct1]
      e2 [THEN conjunct2, THEN conjunct2]
    have "trace s1 = trace s @ (evs1 @ evs2)"
      using evs1(1) evs2(1) by simp
    moreover have "orderly rootId accessToken driveId (dom (map_of folderMap)) (evs1 @ evs2)"
      by (rule orderly_append [OF evs1(2) evs2(2) sub cre])
    moreover have "\<forall>c2 p2 m2. r = Inr (c2, p2, m2) \<longrightarrow>
              walk_invar rootId (c2, p2, m2) \<and> dom (map_of folderMap) \<subseteq> dom (map_of m2) \<and>
              fst ` set (creations (evs1 @ evs2)) \<subseteq> dom (map_of m2)"
    proof (intro allI impI)
      fix c2 p2 m2 assume "r = Inr (c2, p2, m2)"
      with evs2(3) have "walk_invar rootId (c2, p2, m2)" "dom (map_of m1) \<subseteq> dom (map_of m2)"
        "fst ` set (creations evs2) \<subseteq> dom (map_of m2)" by simp_all
      with sub cre show "walk_invar rootId (c2, p2, m2) \<and>
              dom (map_of folderMap) \<subseteq> dom (map_of m2) \<and>
              fst ` set (creations (evs1 @ evs2)) \<subseteq> dom (map_of m2)"
        by (simp add: creations_append image_Un) blast
    qed
    ultimately show ?thesis
      by (intro exI [where x = "evs1 @ evs2"]) simp
  qed
qed

lemma create_folders_orderly:
  assumes "map_invar rootId folderMap"
    and "create_folders h accessToken driveId rootId delay sourceFolders folderMap s = (r, s1)"
  shows "\<exists>evs. trace s1 = trace s @ evs \<and>
           orderly rootId accessToken driveId (dom (map_of folderMap)) evs \<and>
           (\<forall>m1. r = Inr m1 \<longrightarrow>
              map_invar rootId m1 \<and> dom (map_of folderMap) \<subseteq> dom (map_of m1) \<and>
              fst ` set (creations evs) \<subseteq> dom (map_of m1))"
  using assms
proof (induction sourceFolders arbitrary: folderMap s)
  case Nil
  from Nil.prems(2) have "r = Inr folderMap" "s1 = s" by simp_all
  with Nil.prems(1) show ?case
    by (intro exI [where x = "[]"]) (simp add: orderly_Nil)
next
  case (Cons folder sourceFolders)
  let ?segments = "str_split CHR ''/'' (path folder)"
  obtain r0 sa where w: "walk_segments h accessToken driveId delay ?segments
      (None, rootId, folderMap) s = (r0, sa)"
    by (cases "walk_segments h accessToken driveId delay ?segments (None, rootId, folderMap) s")
  have inv: "walk_invar rootId (None, rootId, folderMap)"
    using Cons.prems(1) by (simp add: walk_invar_def map_invar_def)
  have segs: "\<forall>segment \<in> set ?segments. CHR ''/'' \<notin> set segment"
    by (simp add: str_split_no_sep)
  from walk_segments_orderly [OF inv segs w] obtain evs1 where e1:
    "trace sa = trace s @ evs1 \<and>
     orderly rootId accessToken driveId (dom (map_of folderMap)) evs1 \<and>
     (\<forall>c1 p1 m1. r0 = Inr (c1, p1, m1) \<longrightarrow>
              walk_invar rootId (c1, p1, m1) \<and> dom (map_of folderMap) \<subseteq> dom (map_of m1) \<and>
              fst ` set (creations evs1) \<subseteq> dom (map_of m1))" ..
  note evs1 = e1 [THEN conjunct1] e1 [THEN conjunct2, THEN conjunct1]
    e1 [THEN conjunct2, THEN conjunct2]
  show ?case
  proof (cases r0)
    case (Inl e)
    with Cons.prems(2) w have "r = Inl e" "s1 = sa" by simp_all
    with evs1(1,2) show ?thesis
      by (intro exI [where x = evs1]) simp
  next
    case (Inr v1)
    obtain c1 p1 m1 where v1: "v1 = (c1, p1, m1)" by (cases v1)
    from evs1(3) Inr v1 have inv1: "walk_invar rootId (c1, p1, m1)"
      and sub: "dom (map_of folderMap) \<subseteq> dom (map_of m1)"
      and cre: "fst ` set (creations evs1) \<subseteq> dom (map_of m1)"
      by simp_all
    from inv1 have mi1: "map_invar rootId m1"
      by (simp add: walk_invar_def)
    have cf: "create_folders h accessToken driveId rootId delay sourceFolders m1 sa = (r, s1)"
      using Cons.prems(2) w Inr v1 by simp
    from Cons.IH [OF mi1 cf] obtain evs2 where e2:
      "trace s1 = trace sa @ evs2 \<and>
       orderly rootId accessToken driveId (dom (map_of m1)) evs2 \<and>
       (\<forall>m2. r = Inr m2 \<longrightarrow>
              map_invar rootId m2 \<and> dom (map_of m1) \<subseteq> dom (map_of m2) \<and>
              fst ` set (creations evs2) \<subseteq> dom (map_of m2))" ..
    note evs2 = e2 [THEN conjunct1] e2 [THEN conjunct2, THEN conjunct1]
      e2 [THEN conjunct2, THEN conjunct2]
    have "trace s1 = trace s @ (evs1 @ evs2)"
      using evs1(1) evs2(1) by simp
    moreover have "orderly rootId accessToken driveId (dom (map_of folderMap)) (evs1 @ evs2)"
      by (rule orderly_append [OF evs1(2) evs2(2) sub cre])
    moreover have "\<forall>m2. r = Inr m2 \<longrightarrow>
              map_invar rootId m2 \<and> dom (map_of folderMap) \<subseteq> dom (map_of m2) \<and>
              fst ` set (creations (evs1 @ evs2)) \<subseteq> dom (map_of m2)"
    proof (intro allI impI)
      fix m2 assume "r = Inr m2"
      with evs2(3) have "map_invar rootId m2" "dom (map_of m1) \<subseteq> dom (map_of m2)"
        "fst ` set (creations evs2) \<subseteq> dom (map_of m2)" by simp_all
      with sub cre show "map_invar rootId m2 \<and>
              dom (map_of folderMap) \<subseteq> dom (map_of m2) \<and>
              fst ` set (creations (evs1 @ evs2)) \<subseteq> dom (map_of m2)"
        by (simp add: creations_append image_Un) blast
    qed
    ultimately show ?thesis
      by (intro exI [where x = "evs1 @ evs2"]) simp
  qed
qed

lemma builder_orderly:
  "\<exists>evs. trace (snd (createFoldersIfNecessary h accessToken driveId folderId sourceFolders delay s))
            = trace s @ evs \<and>
          orderly folderId accessToken driveId {[]} evs"
proof -
  obtain r s1 where cf: "create_folders h accessToken driveId folderId delay sourceFolders
      [([], folderId)] s = (r, s1)"
    by (cases "create_folders h accessToken driveId folderId delay sourceFolders [([], folderId)] s")
  have mi: "map_invar folderId [([], folderId)]"
    by (simp add: map_invar_def)
  from create_folders_orderly [OF mi cf] obtain evs where e:
    "trace s1 = trace s @ evs \<and>
     orderly folderId accessToken driveId (dom (map_of [([], folderId)])) evs \<and>
     (\<forall>m1. r = Inr m1 \<longrightarrow>
              map_invar folderId m1 \<and> dom (map_of [([], folderId)]) \<subseteq> dom (map_of m1) \<and>
              fst ` set (creations evs) \<subseteq> dom (map_of m1))" ..
  have "snd (createFoldersIfNecessary h accessToken driveId folderId sourceFolders delay s) = s1"
    using cf by (simp add: createFoldersIfNecessary_def split: sum.splits)
  with e show ?thesis
    by (intro exI [where x = evs]) simp
qed

text \<open>
  C4. For every list of folder paths, the creation requests of the hierarchy builder are
  exactly those announced in the trace, and at each of them the folder map holds the
  empty path with the root id, does not hold the path to create, holds its parent path
  with the id the request names as parent, and holds every ancestor of the path.
\<close>

theorem parent_cached_before_create:
  "\<exists>evs. trace (snd (createFoldersIfNecessary h accessToken driveId folderId sourceFolders delay s))
            = trace s @ evs \<and>
          posts evs = map (create_request accessToken driveId) (creations evs) \<and>
          (\<forall>(p, parentId, folderMap) \<in> set (creations evs).
             map_of folderMap [] = Some folderId \<and>
             map_of folderMap p = None \<and>
             map_of folderMap (parent_path p) = Some parentId \<and>
             set (ancestors p) \<subseteq> dom (map_of folderMap))"
proof -
  from builder_orderly [of h accessToken driveId folderId sourceFolders delay s]
  obtain evs where e:
    "trace (snd (createFoldersIfNecessary h accessToken driveId folderId sourceFolders delay s))
            = trace s @ evs \<and>
          orderly folderId accessToken driveId {[]} evs" ..
  then have "list_all (well_placed folderId) (creations evs)"
    by (simp add: orderly_def)
  then have "\<forall>(p, parentId, folderMap) \<in> set (creations evs).
             map_of folderMap [] = Some folderId \<and>
             map_of folderMap p = None \<and>
             map_of folderMap (parent_path p) = Some parentId \<and>
             set (ancestors p) \<subseteq> dom (map_of folderMap)"
    by (simp add: list_all_iff well_placed_def case_prod_beta)
  with e show ?thesis
    by (intro exI [where x = evs]) (simp add: orderly_def)
qed

text \<open>
  C10. In a run of the hierarchy builder the creation requests are exactly those
  announced in the trace and no path is announced twice: each prefix path has at most
  one creation request. A segment whose path is in the folder map takes its id from the
  map and leaves the state as it is: no request, no event.
\<close>

theorem one_create_per_prefix:
  "(\<exists>evs. trace (snd (createFoldersIfNecessary h accessToken driveId folderId sourceFolders delay s))
            = trace s @ evs \<and>
          posts evs = map (create_request accessToken driveId) (creations evs) \<and>
          distinct (map fst (creations evs))) \<and>
   (map_of folderMap (next_path currentPath segment) = Some cached \<longrightarrow>
      create_segment h accessToken driveId delay segment (currentPath, parentId, folderMap) s =
        (Inr (Some (next_path currentPath segment), cached, folderMap), s))"
proof
  from builder_orderly [of h accessToken driveId folderId sourceFolders delay s]
  obtain evs where e:
    "trace (snd (createFoldersIfNecessary h accessToken driveId folderId sourceFolders delay s))
            = trace s @ evs \<and>
          orderly folderId accessToken driveId {[]} evs" ..
  then show "\<exists>evs. trace (snd (createFoldersIfNecessary h accessToken driveId folderId sourceFolders delay s))
            = trace s @ evs \<and>
          posts evs = map (create_request accessToken driveId) (creations evs) \<and>
          distinct (map fst (creations evs))"
    by (intro exI [where x = evs]) (simp add: orderly_def)
  show "map_of folderMap (next_path currentPath segment) = Some cached \<longrightarrow>
      create_segment h accessToken driveId delay segment (currentPath, parentId, folderMap) s =
        (Inr (Some (next_path currentPath segment), cached, folderMap), s)"
    by (simp add: create_segment_def Let_def)
qed

text \<open>The builder on the folders \<open>a\<close>, \<open>a/b\<close>, \<open>a\<close>.\<close>

lemma shared_run:
  "createFoldersIfNecessary example_host ''T'' ''D'' ''ROOT'' shared_folders (Finite 10)
      (initial_state created_script) =
     (Inr (),
      \<lparr>remote = [],
       uploadReport =
         \<lparr>uploads = 0, uploadList = [], failures = 0, failedList = [],
          failedFolderCreations = 0, lockedFiles = 0\<rparr>,
       sourceStructure = \<lparr>folders = [], files = []\<rparr>,
       outputs = [],
       trace =
         [Creating ''a'' ''ROOT'' [([], ''ROOT'')],
          Fetch (children_url ''D'' ''ROOT'', create_init ''T'' ''a''),
          Creating ''a/b'' ''A1'' [([], ''ROOT''), (''a'', ''A1'')],
          Fetch (children_url ''D'' ''A1'', create_init ''T'' ''b'')]\<rparr>)"
  by (simp add: shared_folders_def created_script_def example_eval)

lemma ancestors_a_b: "ancestors ''a/b'' = [''a'', []]"
  by (simp add: ancestors.simps parent_path_def)

text \<open>The two creations of the example: \<open>a\<close> under the root, \<open>a/b\<close> under the id
  cached for \<open>a\<close>.\<close>

theorem parent_cached_before_create_witness:
  "creations (trace (snd (createFoldersIfNecessary example_host ''T'' ''D'' ''ROOT''
      shared_folders (Finite 10) (initial_state created_script)))) =
     [(''a'', ''ROOT'', [([], ''ROOT'')]),
      (''a/b'', ''A1'', [([], ''ROOT''), (''a'', ''A1'')])] \<and>
   parent_path ''a/b'' = ''a'' \<and>
   map_of [([], ''ROOT''), (''a'', ''A1'')] (parent_path ''a/b'') = Some ''A1'' \<and>
   set (ancestors ''a/b'') \<subseteq> dom (map_of [([], ''ROOT''), (''a'', ''A1'')])"
  using parent_cached_before_create [of example_host "''T''" "''D''" "''ROOT''" shared_folders
      "Finite 10" "initial_state created_script"]
  by (simp add: shared_run) (simp add: initial_state_def parent_path_def ancestors_a_b)

text \<open>Three folders and four segments to visit, two creation requests.\<close>

theorem one_create_per_prefix_witness:
  "posts (trace (snd (createFoldersIfNecessary example_host ''T'' ''D'' ''ROOT''
      shared_folders (Finite 10) (initial_state created_script)))) =
     [(children_url ''D'' ''ROOT'', create_init ''T'' ''a''),
      (children_url ''D'' ''A1'', create_init ''T'' ''b'')] \<and>
   map fst (creations (trace (snd (createFoldersIfNecessary example_host ''T'' ''D'' ''ROOT''
      shared_folders (Finite 10) (initial_state created_script))))) = [''a'', ''a/b''] \<and>
   create_segment example_host ''T'' ''D'' (Finite 10) ''a''
      (Some [], ''ROOT'', [([], ''ROOT''), (''a'', ''A1'')]) (initial_state []) =
     (Inr (Some ''a'', ''A1'', [([], ''ROOT''), (''a'', ''A1'')]), initial_state [])"
  using one_create_per_prefix [of example_host "''T''" "''D''" "''ROOT''" shared_folders
      "Finite 10" "initial_state []" "[([], ''ROOT''), (''a'', ''A1'')]" "Some []" "''a''"
      "''A1''" "''ROOT''"]
    one_create_per_prefix [of example_host "''T''" "''D''" "''ROOT''" shared_folders
      "Finite 10" "initial_state created_script" "[([], ''ROOT''), (''a'', ''A1'')]" "Some []" "''a''"
      "''A1''" "''ROOT''"]
  by (simp add: shared_run next_path_def) (simp add: posts_def create_init_def)

end
